theory Spec2Isabelle
  imports Main "HOL-Library.Word" "HOL-Library.Signed_Division"
begin

unbundle bit_operations_syntax

section \<open>Go values\<close>

text \<open>
  The bitmap font of the repository exists in two variants: \<^verbatim>\<open>font.go\<close> draws each glyph
  straight to an SDL renderer (immediate mode), the second file blits the glyphs into a new
  surface and returns it (surface mode). Both share the \<^verbatim>\<open>Font\<close> struct and
  \<^verbatim>\<open>loadGlyph\<close>.

  Go's \<^verbatim>\<open>int\<close> is a 64-bit two's complement integer, \<^verbatim>\<open>int32\<close> (the fields of
  \<^verbatim>\<open>sdl.Rect\<close>) and \<^verbatim>\<open>rune\<close> are 32-bit ones, a \<^verbatim>\<open>string\<close> is a sequence of bytes.
  A byte offset into a string (the result of \<^verbatim>\<open>strings.IndexRune\<close>) is kept as an
  \<open>int\<close>: a Go string is shorter than \<open>2^63\<close> bytes, so the offset is that number.
  Go's \<^verbatim>\<open>/\<close> and \<^verbatim>\<open>%\<close> truncate towards zero (\<open>sdiv\<close> and \<open>smod\<close>) and panic on a
  zero divisor.
\<close>

type_synonym go_int = "64 word"
type_synonym int32 = "32 word"
type_synonym rune = "32 word"
type_synonym byte = "8 word"

text \<open>The conversion \<^verbatim>\<open>int32(v)\<close> of an \<^verbatim>\<open>int\<close> keeps the low 32 bits.\<close>

definition int32 :: "go_int \<Rightarrow> int32" where
  "int32 v = ucast v"

datatype panic =
    DivideByZero        \<comment> \<open>runtime error: integer divide by zero\<close>
  | IndexOutOfRange     \<comment> \<open>runtime error: index out of range\<close>
  | LoadFailed          \<comment> \<open>\<^verbatim>\<open>panic(err)\<close> after \<^verbatim>\<open>img.Load\<close> or texture creation\<close>
  | CreateSurfaceFailed \<comment> \<open>\<^verbatim>\<open>panic(err)\<close> after \<^verbatim>\<open>sdl.CreateRGBSurface\<close>\<close>

section \<open>UTF-8 decoding and \<^verbatim>\<open>strings.IndexRune\<close>\<close>

text \<open>
  \<^verbatim>\<open>for i, r := range s\<close> walks a string one UTF-8 sequence at a time, as
  \<^verbatim>\<open>utf8.DecodeRuneInString\<close> does: a byte that starts no well-formed sequence yields
  \<^verbatim>\<open>utf8.RuneError\<close> (U+FFFD) with width 1.
\<close>

definition RuneError :: rune where
  "RuneError = 0xFFFD"

text \<open>The number of bytes the sequence starting with byte \<open>b\<close> has; 0 for a byte that
  starts none (table \<^verbatim>\<open>first\<close> of package utf8).\<close>

definition seqLen :: "byte \<Rightarrow> nat" where
  "seqLen b =
     (if b < 0x80 then 1
      else if b < 0xC2 then 0
      else if b < 0xE0 then 2
      else if b < 0xF0 then 3
      else if b < 0xF5 then 4
      else 0)"

text \<open>The range the second byte of a sequence must lie in (table \<^verbatim>\<open>acceptRanges\<close>).\<close>

definition acceptLo :: "byte \<Rightarrow> byte" where
  "acceptLo b = (if b = 0xE0 then 0xA0 else if b = 0xF0 then 0x90 else 0x80)"

definition acceptHi :: "byte \<Rightarrow> byte" where
  "acceptHi b = (if b = 0xED then 0x9F else if b = 0xF4 then 0x8F else 0xBF)"

definition contByte :: "byte \<Rightarrow> bool" where
  "contByte b = (0x80 \<le> b \<and> b \<le> 0xBF)"

definition bits :: "byte \<Rightarrow> byte \<Rightarrow> rune" where
  "bits b m = ucast (b AND m)"

definition decodeRune :: "string \<Rightarrow> rune \<times> nat" where
  "decodeRune s =
     (case map of_char s of
        [] \<Rightarrow> (RuneError, 0)
      | s0 # t \<Rightarrow>
          if seqLen s0 = 1 then (ucast s0, 1)
          else if seqLen s0 = 0 then (RuneError, 1)
          else if length s < seqLen s0 then (RuneError, 1)
          else
            let s1 = t ! 0 in
            if s1 < acceptLo s0 \<or> acceptHi s0 < s1 then (RuneError, 1)
            else if seqLen s0 \<le> 2 then
              (push_bit 6 (bits s0 0x1F) OR bits s1 0x3F, 2)
            else
              let s2 = t ! 1 in
              if \<not> contByte s2 then (RuneError, 1)
              else if seqLen s0 \<le> 3 then
                (push_bit 12 (bits s0 0x0F) OR push_bit 6 (bits s1 0x3F) OR bits s2 0x3F, 3)
              else
                let s3 = t ! 2 in
                if \<not> contByte s3 then (RuneError, 1)
                else
                  (push_bit 18 (bits s0 0x07) OR push_bit 12 (bits s1 0x3F)
                     OR push_bit 6 (bits s2 0x3F) OR bits s3 0x3F, 4))"

lemma decodeRune_width: "s \<noteq> [] \<Longrightarrow> 1 \<le> snd (decodeRune s) \<and> snd (decodeRune s) \<le> length s"
  by (cases s) (auto simp: decodeRune_def Let_def)

text \<open>The pairs \<open>(i, r)\<close> that \<^verbatim>\<open>for i, r := range s\<close> goes through; \<open>i\<close> is the byte offset
  of the first string this was called on.\<close>

function rangeString :: "nat \<Rightarrow> string \<Rightarrow> (nat \<times> rune) list" where
  "rangeString i s =
     (if s = [] then []
      else (i, fst (decodeRune s)) # rangeString (i + snd (decodeRune s)) (drop (snd (decodeRune s)) s))"
  by pat_completeness auto
termination
proof (relation "measure (\<lambda>(i, s). length s)")
  show "wf (measure (\<lambda>(i, s). length s))" by simp
next
  fix i :: nat and s :: string
  assume "s \<noteq> []"
  then show "((i + snd (decodeRune s), drop (snd (decodeRune s)) s), (i, s)) \<in> measure (\<lambda>(i, s). length s)"
    using decodeRune_width [of s] by (cases s) auto
qed

text \<open>
  \<^verbatim>\<open>strings.IndexRune(s, r)\<close>, from its documentation: the byte index of the first instance
  of the code point \<open>r\<close> in \<open>s\<close>, or \<open>-1\<close>; for \<^verbatim>\<open>utf8.RuneError\<close> the first instance of any
  invalid sequence. The first position at which the range loop yields \<open>r\<close> is both.
\<close>

definition IndexRune :: "string \<Rightarrow> rune \<Rightarrow> int" where
  "IndexRune s r =
     (case find (\<lambda>p. snd p = r) (rangeString 0 s) of
        None \<Rightarrow> - 1
      | Some p \<Rightarrow> int (fst p))"

declare rangeString.simps [simp del]

text \<open>The rune \<open>r\<close> stands in \<open>s\<close> and \<open>i\<close> is the byte offset of its first instance.\<close>

definition firstAt :: "string \<Rightarrow> rune \<Rightarrow> nat \<Rightarrow> bool" where
  "firstAt s r i =
     ((i, r) \<in> set (rangeString 0 s) \<and> (\<forall>p \<in> set (rangeString 0 s). snd p = r \<longrightarrow> i \<le> fst p))"

section \<open>The font and glyph lookup\<close>

text \<open>
  \<^verbatim>\<open>sdl.Rect\<close> and the \<^verbatim>\<open>Font\<close> struct. The atlas (a texture in immediate mode, a surface
  in surface mode) is a handle to SDL's pixels and is left out: the functions below only
  pass it on to SDL. \<^verbatim>\<open>CharSize\<close> is the array \<^verbatim>\<open>[2]int\<close>: \<open>fst\<close> is \<^verbatim>\<open>CharSize[0]\<close>,
  \<open>snd\<close> is \<^verbatim>\<open>CharSize[1]\<close>.
\<close>

record Rect =
  X :: int32
  Y :: int32
  W :: int32
  H :: int32

record Font =
  GridWidth :: go_int
  CharSize :: "go_int \<times> go_int"
  CharSet :: string
  CharWidths :: "go_int list"
  NewlinePad :: go_int
  LetterPad :: go_int

text \<open>What a call does besides returning: the log lines and the SDL calls, in order. The
  colour of \<^verbatim>\<open>SetColorMod\<close> is the three bytes \<^verbatim>\<open>uint8(r*255)\<close>, \<^verbatim>\<open>uint8(g*255)\<close>,
  \<^verbatim>\<open>uint8(b*255)\<close>; the floating-point conversion itself is outside the model.\<close>

type_synonym colour = "byte \<times> byte \<times> byte"

datatype event =
    LogNotFound rune              \<comment> \<open>\<^verbatim>\<open>Character %q not found in font charset\<close>\<close>
  | SetColorMod colour
  | RendererCopy Rect Rect        \<comment> \<open>\<^verbatim>\<open>renderer.Copy(font.Atlas, &srcRect, &dstRect)\<close>\<close>
  | LogRenderFailed rune          \<comment> \<open>\<^verbatim>\<open>Failed to render character %q\<close>\<close>
  | CreateRGBSurface int32 int32  \<comment> \<open>width and height asked of \<^verbatim>\<open>sdl.CreateRGBSurface\<close>\<close>
  | Blit Rect Rect                \<comment> \<open>\<^verbatim>\<open>font.Atlas.Blit(&srcRect, surface, &dstRect)\<close>\<close>

definition zeroRect :: Rect where
  "zeroRect = \<lparr>X = 0, Y = 0, W = 0, H = 0\<rparr>"

text \<open>\<^verbatim>\<open>font.CharWidths[index]\<close>: Go panics when the index is negative or not below the
  length of the slice.\<close>

definition charWidthAt :: "Font \<Rightarrow> int \<Rightarrow> panic + go_int" where
  "charWidthAt font index =
     (if index < 0 \<or> int (length (CharWidths font)) \<le> index then Inl IndexOutOfRange
      else Inr (CharWidths font ! nat index))"

text \<open>\<^verbatim>\<open>loadGlyph\<close> (the same in both files): the rectangle of the glyph in the atlas, with
  the lines it logs. \<^verbatim>\<open>index % font.GridWidth\<close> and \<^verbatim>\<open>index / font.GridWidth\<close> are taken on
  the integers, where the offset is, and their results (no larger than the offset) then
  as Go \<^verbatim>\<open>int\<close>s; the products and the conversions to \<^verbatim>\<open>int32\<close> wrap as Go's do.\<close>

definition loadGlyph :: "Font \<Rightarrow> rune \<Rightarrow> panic + (Rect \<times> event list)" where
  "loadGlyph font char =
     (let index = IndexRune (CharSet font) char in
      if index < 0 then Inr (zeroRect, [LogNotFound char])
      else if GridWidth font = 0 then Inl DivideByZero
      else
        let gridX = int32 (word_of_int (index smod sint (GridWidth font)) * (fst (CharSize font) + 1));
            gridY = int32 (word_of_int (index sdiv sint (GridWidth font)) * (snd (CharSize font) + 1))
        in
          (case charWidthAt font index of
             Inl p \<Rightarrow> Inl p
           | Inr w \<Rightarrow>
               Inr (\<lparr>X = gridX, Y = gridY, W = int32 w, H = int32 (snd (CharSize font))\<rparr>, [])))"

section \<open>Rendering, immediate mode (\<^verbatim>\<open>font.go\<close>)\<close>

text \<open>The state of the loop of \<^verbatim>\<open>renderString\<close>: the cursor and the events so far.\<close>

record cursor =
  cursorX :: go_int
  cursorY :: go_int
  trace :: "event list"

definition emit :: "event list \<Rightarrow> cursor \<Rightarrow> cursor" where
  "emit es st = st\<lparr>trace := trace st @ es\<rparr>"

text \<open>
  One turn of the loop, for the rune \<open>char\<close>: the state after it and the panic that ended
  it, if any. \<open>copyErr\<close> tells whether \<^verbatim>\<open>renderer.Copy\<close> returned an error, from the events
  up to and including that call; \<open>x\<close> is the starting column.
\<close>

definition renderChar ::
  "Font \<Rightarrow> (event list \<Rightarrow> bool) \<Rightarrow> colour \<Rightarrow> go_int \<Rightarrow> rune \<Rightarrow> cursor \<Rightarrow> cursor \<times> panic option" where
  "renderChar font copyErr col x char st =
     (if char = 0x0A then
        (st\<lparr>cursorX := x, cursorY := cursorY st + (snd (CharSize font) + NewlinePad font)\<rparr>, None)
      else
        case loadGlyph font char of
          Inl p \<Rightarrow> (st, Some p)
        | Inr (srcRect, logs) \<Rightarrow>
            let st1 = emit logs st in
            if W srcRect = 0 \<or> H srcRect = 0 then (st1, None)
            else
              let dstRect = \<lparr>X = int32 (cursorX st1), Y = int32 (cursorY st1),
                             W = W srcRect, H = H srcRect\<rparr>;
                  st2 = emit [SetColorMod col, RendererCopy srcRect dstRect] st1;
                  st3 = (if copyErr (trace st2) then emit [LogRenderFailed char] st2 else st2)
              in
                (case charWidthAt font (IndexRune (CharSet font) char) of
                   Inl p \<Rightarrow> (st3, Some p)
                 | Inr charWidth \<Rightarrow>
                     (st3\<lparr>cursorX := cursorX st3 + (charWidth + LetterPad font)\<rparr>, None)))"

fun renderLoop ::
  "Font \<Rightarrow> (event list \<Rightarrow> bool) \<Rightarrow> colour \<Rightarrow> go_int \<Rightarrow> rune list \<Rightarrow> cursor \<Rightarrow> cursor \<times> panic option" where
  "renderLoop font copyErr col x [] st = (st, None)"
| "renderLoop font copyErr col x (char # rest) st =
     (case renderChar font copyErr col x char st of
        (st', Some p) \<Rightarrow> (st', Some p)
      | (st', None) \<Rightarrow> renderLoop font copyErr col x rest st')"

definition renderString ::
  "Font \<Rightarrow> (event list \<Rightarrow> bool) \<Rightarrow> string \<Rightarrow> go_int \<Rightarrow> go_int \<Rightarrow> colour \<Rightarrow> cursor \<times> panic option" where
  "renderString font copyErr text_in x y col =
     renderLoop font copyErr col x (map snd (rangeString 0 text_in))
       \<lparr>cursorX = x, cursorY = y, trace = []\<rparr>"

section \<open>Rendering, surface mode\<close>

text \<open>\<^verbatim>\<open>getStringLen\<close>: the loop \<^verbatim>\<open>for i := range text\<close> visits the byte offset of every
  sequence and looks the byte \<^verbatim>\<open>text[i]\<close> up as a rune.\<close>

fun sumWidths :: "Font \<Rightarrow> byte list \<Rightarrow> go_int \<Rightarrow> panic + go_int" where
  "sumWidths font [] ln = Inr ln"
| "sumWidths font (b # bs) ln =
     (case charWidthAt font (IndexRune (CharSet font) (ucast b)) of
        Inl p \<Rightarrow> Inl p
      | Inr charWidth \<Rightarrow> sumWidths font bs (ln + (charWidth + LetterPad font)))"

definition getStringLen :: "Font \<Rightarrow> string \<Rightarrow> panic + go_int" where
  "getStringLen font text_in =
     sumWidths font (map (\<lambda>p. of_char (text_in ! fst p)) (rangeString 0 text_in)) 0"

text \<open>The surface \<^verbatim>\<open>RenderString\<close> returns, by its size; what was drawn into it is in the
  events.\<close>

record Surface =
  SurfaceW :: int32
  SurfaceH :: int32

definition blitChar :: "Font \<Rightarrow> rune \<Rightarrow> cursor \<Rightarrow> cursor \<times> panic option" where
  "blitChar font char st =
     (if char = 0x0A then
        (st\<lparr>cursorX := 0, cursorY := cursorY st + (snd (CharSize font) + NewlinePad font)\<rparr>, None)
      else
        case loadGlyph font char of
          Inl p \<Rightarrow> (st, Some p)
        | Inr (srcRect, logs) \<Rightarrow>
            let st1 = emit logs st in
            if W srcRect = 0 \<or> H srcRect = 0 then (st1, None)
            else
              let dstRect = \<lparr>X = int32 (cursorX st1), Y = int32 (cursorY st1),
                             W = W srcRect, H = H srcRect\<rparr>;
                  st2 = emit [Blit srcRect dstRect] st1
              in
                (case charWidthAt font (IndexRune (CharSet font) char) of
                   Inl p \<Rightarrow> (st2, Some p)
                 | Inr charWidth \<Rightarrow>
                     (st2\<lparr>cursorX := cursorX st2 + (charWidth + LetterPad font)\<rparr>, None)))"

fun blitLoop :: "Font \<Rightarrow> rune list \<Rightarrow> cursor \<Rightarrow> cursor \<times> panic option" where
  "blitLoop font [] st = (st, None)"
| "blitLoop font (char # rest) st =
     (case blitChar font char st of
        (st', Some p) \<Rightarrow> (st', Some p)
      | (st', None) \<Rightarrow> blitLoop font rest st')"

text \<open>\<^verbatim>\<open>RenderString\<close>: the events, and the surface or the panic. \<open>createErr\<close> tells whether
  \<^verbatim>\<open>sdl.CreateRGBSurface\<close> fails for a width and a height.\<close>

definition RenderString ::
  "Font \<Rightarrow> (int32 \<Rightarrow> int32 \<Rightarrow> bool) \<Rightarrow> string \<Rightarrow> colour \<Rightarrow> event list \<times> (panic + Surface)" where
  "RenderString font createErr text_in col =
     (case getStringLen font text_in of
        Inl p \<Rightarrow> ([], Inl p)
      | Inr ln \<Rightarrow>
          let w = int32 ln; h = int32 (snd (CharSize font)) in
          if createErr w h then ([CreateRGBSurface w h], Inl CreateSurfaceFailed)
          else
            (case blitLoop font (map snd (rangeString 0 text_in))
                    \<lparr>cursorX = 0, cursorY = 0, trace = [CreateRGBSurface w h, SetColorMod col]\<rparr> of
               (st, Some p) \<Rightarrow> (trace st, Inl p)
             | (st, None) \<Rightarrow> (trace st, Inr \<lparr>SurfaceW = w, SurfaceH = h\<rparr>)))"

section \<open>Construction\<close>

text \<open>\<^verbatim>\<open>newFont\<close> (\<^verbatim>\<open>NewFont\<close> in surface mode): loading the atlas is SDL's work;
  \<open>loadErr\<close> tells whether \<^verbatim>\<open>img.Load\<close> (or, in immediate mode, the creation of the
  texture) failed, which panics.\<close>

definition newFont :: "bool \<Rightarrow> go_int \<Rightarrow> string \<Rightarrow> go_int list \<Rightarrow> panic + Font" where
  "newFont loadErr gridWidth charSet charWidths =
     (if loadErr then Inl LoadFailed
      else Inr \<lparr>GridWidth = gridWidth, CharSize = (5, 11), CharSet = charSet,
                CharWidths = charWidths, NewlinePad = 5, LetterPad = 1\<rparr>)"

definition NewFont :: "bool \<Rightarrow> go_int \<Rightarrow> string \<Rightarrow> go_int list \<Rightarrow> panic + Font" where
  "NewFont loadErr gridWidth charSet charWidths =
     (if loadErr then Inl LoadFailed
      else Inr \<lparr>GridWidth = gridWidth, CharSize = (5, 11), CharSet = charSet,
                CharWidths = charWidths, NewlinePad = 5, LetterPad = 1\<rparr>)"

text \<open>The character set both default constructors pass, in the order of the atlas: the
  printable ASCII characters, with \<^verbatim>\<open>]\<close> before the backslash and \<^verbatim>\<open>}\<close> before \<^verbatim>\<open>|\<close>.
  The double quote, the apostrophe, the backslash and the backquote are written by their
  codes.\<close>

definition defaultCharSet :: string where
  "defaultCharSet =
     '' !'' @ [CHR 0x22] @ ''#$%&'' @ [CHR 0x27] @ ''()*+,-./0123456789:;<=>?'' @
     ''@ABCDEFGHIJKLMNOPQRSTUVWXYZ[]'' @ [CHR 0x5C] @ ''^_'' @ [CHR 0x60] @
     ''abcdefghijklmnopqrstuvwxyz{}|~''"

text \<open>\<^verbatim>\<open>makeDefaultFont\<close> of \<^verbatim>\<open>font.go\<close>; the rows of the table are: space to \<^verbatim>\<open>/\<close>, the
  digits, \<^verbatim>\<open>:\<close> to \<^verbatim>\<open>@\<close>, the capitals, six signs, the small letters, four signs.\<close>

definition makeDefaultFont :: "bool \<Rightarrow> panic + Font" where
  "makeDefaultFont loadErr =
     newFont loadErr 10 defaultCharSet
     [
      3, 1, 3, 5, 5, 5, 5, 1, 2, 2, 3, 3, 1, 3, 1, 5,
      5, 3, 5, 5, 5, 5, 5, 5, 5, 5,
      1, 1, 3, 3, 3, 4, 5,
      5, 5, 5, 5, 5, 5, 5, 5, 5, 5, 5, 4, 5, 5, 5, 5, 5, 5, 5, 5, 5, 5, 5, 5, 5, 5,
      2, 2, 5, 3, 3, 2,
      5, 5, 4, 5, 5, 5, 5, 5, 1, 4, 4, 3, 5, 4, 4, 5, 5, 4, 4, 4, 5, 3, 5, 3, 4, 4,
      3, 3, 1, 4
     ]"

text \<open>\<^verbatim>\<open>MakeDefaultFont\<close> of the surface variant.\<close>

definition MakeDefaultFont :: "bool \<Rightarrow> panic + Font" where
  "MakeDefaultFont loadErr =
     NewFont loadErr 10 defaultCharSet
     [
      3, 1, 3, 5, 5, 5, 5, 1, 2, 2, 3, 3, 1, 3, 1, 5,
      5, 3, 5, 5, 5, 5, 5, 5, 5, 5,
      1, 1, 3, 3, 3, 4, 5,
      5, 5, 5, 5, 5, 5, 5, 5, 5, 5, 5, 4, 5, 5, 5, 5, 5, 5, 5, 5, 5, 5, 5, 5, 5, 5,
      2, 2, 5, 3, 3, 2,
      5, 5, 4, 5, 5, 4, 5, 5, 1, 4, 4, 3, 5, 4, 4, 5, 5, 4, 4, 4, 5, 3, 5, 3, 4, 4,
      3, 3, 1, 4
     ]"

text \<open>The font of the specification's examples: character set \<^verbatim>\<open>"AB"\<close>, widths 5 and 5,
  ten cells per row, with the cell size and the pads \<^verbatim>\<open>newFont\<close> sets.\<close>

definition fontAB :: Font where
  "fontAB = \<lparr>GridWidth = 10, CharSize = (5, 11), CharSet = ''AB'', CharWidths = [5, 5],
              NewlinePad = 5, LetterPad = 1\<rparr>"

text \<open>The font \<^verbatim>\<open>"AB"\<close> with width 0 for \<^verbatim>\<open>'B'\<close>, and a font whose one character is
  U+00E9 (two bytes in UTF-8), with width 0.\<close>

definition fontZero :: Font where
  "fontZero = fontAB\<lparr>CharWidths := [5, 0]\<rparr>"

definition fontAccent :: Font where
  "fontAccent = \<lparr>GridWidth = 10, CharSize = (5, 11), CharSet = [CHR 0xC3, CHR 0xA9],
                 CharWidths = [0, 0], NewlinePad = 5, LetterPad = 1\<rparr>"

text \<open>A font that has the newline in its character set, so that a text of two lines
  can be measured.\<close>

definition fontLines :: Font where
  "fontLines = \<lparr>GridWidth = 10, CharSize = (5, 11), CharSet = ''AB'' @ [CHR 0x0A],
                 CharWidths = [5, 5, 0], NewlinePad = 5, LetterPad = 1\<rparr>"

text \<open>A font with a character of three bytes (U+263A, the smiling face the source wants
  to add), and one with the two characters U+00C3 and U+00A9, whose widths stand at the
  byte offsets 0 and 2.\<close>

definition fontSmiley :: Font where
  "fontSmiley = \<lparr>GridWidth = 10, CharSize = (5, 11), CharSet = ''A'' @ [CHR 0xE2, CHR 0x98, CHR 0xBA],
                  CharWidths = [5, 5, 0, 0], NewlinePad = 5, LetterPad = 1\<rparr>"

definition fontLatin :: Font where
  "fontLatin = \<lparr>GridWidth = 10, CharSize = (5, 11),
                 CharSet = [CHR 0xC3, CHR 0x83, CHR 0xC2, CHR 0xA9],
                 CharWidths = [5, 0, 3, 0], NewlinePad = 5, LetterPad = 1\<rparr>"

text \<open>\<^verbatim>\<open>utf8.ValidString\<close>: the string is made of well-formed sequences only.\<close>

function validString :: "string \<Rightarrow> bool" where
  "validString s =
     (if s = [] then True
      else if decodeRune s = (RuneError, 1) then False
      else validString (drop (snd (decodeRune s)) s))"
  by pat_completeness auto
termination
proof (relation "measure length")
  show "wf (measure length)" by simp
next
  fix s :: string
  assume "s \<noteq> []"
  then show "(drop (snd (decodeRune s)) s, s) \<in> measure length"
    using decodeRune_width [of s] by (cases s) auto
qed

declare validString.simps [simp del]

text \<open>A font whose first character has two bytes (U+00E9, then \<^verbatim>\<open>'B'\<close>) with one width
  for each character, and a font with the same character twice and one width.\<close>

definition fontAccentB :: Font where
  "fontAccentB = \<lparr>GridWidth = 10, CharSize = (5, 11), CharSet = [CHR 0xC3, CHR 0xA9, CHR ''B''],
                  CharWidths = [5, 5], NewlinePad = 5, LetterPad = 1\<rparr>"

definition fontAA :: Font where
  "fontAA = \<lparr>GridWidth = 10, CharSize = (5, 11), CharSet = ''AA'', CharWidths = [5],
             NewlinePad = 5, LetterPad = 1\<rparr>"

text \<open>The invariants the functions rely on: a divisor that is not zero, and a width for
  every byte offset of the character set.\<close>

definition wellFormed :: "Font \<Rightarrow> bool" where
  "wellFormed font = (GridWidth font \<noteq> 0 \<and> length (CharSet font) \<le> length (CharWidths font))"

section \<open>Facts about the range loop and \<^verbatim>\<open>IndexRune\<close>\<close>

lemma rangeString_Nil [simp]: "rangeString i [] = []"
  by (simp add: rangeString.simps)

lemma rangeString_Cons:
  "rangeString i (c # cs) =
     (i, fst (decodeRune (c # cs))) #
       rangeString (i + snd (decodeRune (c # cs))) (drop (snd (decodeRune (c # cs))) (c # cs))"
  by (subst rangeString.simps) simp

lemma rangeString_offsets:
  "p \<in> set (rangeString i s) \<Longrightarrow> i \<le> fst p \<and> fst p < i + length s"
proof (induction i s rule: rangeString.induct)
  case (1 i s)
  show ?case
  proof (cases "s = []")
    case True
    with "1.prems" show ?thesis by simp
  next
    case False
    let ?w = "snd (decodeRune s)"
    from False have w: "1 \<le> ?w" "?w \<le> length s"
      using decodeRune_width [of s] by auto
    from "1.prems" False
    have "p = (i, fst (decodeRune s)) \<or> p \<in> set (rangeString (i + ?w) (drop ?w s))"
      by (subst (asm) rangeString.simps) auto
    then show ?thesis
    proof
      assume "p = (i, fst (decodeRune s))"
      with False show ?thesis by (cases s) auto
    next
      assume "p \<in> set (rangeString (i + ?w) (drop ?w s))"
      from "1.IH" [OF False this] w show ?thesis by auto
    qed
  qed
qed

lemma rangeString_sorted: "sorted_wrt (<) (map fst (rangeString i s))"
proof (induction i s rule: rangeString.induct)
  case (1 i s)
  show ?case
  proof (cases "s = []")
    case True
    then show ?thesis by simp
  next
    case False
    let ?w = "snd (decodeRune s)"
    from False have w: "1 \<le> ?w" using decodeRune_width [of s] by auto
    have "\<forall>p \<in> set (rangeString (i + ?w) (drop ?w s)). i < fst p"
      using rangeString_offsets [of _ "i + ?w" "drop ?w s"] w by fastforce
    with "1.IH" [OF False] False show ?thesis
      by (subst rangeString.simps) auto
  qed
qed

lemma IndexRune_range: "IndexRune s r = - 1 \<or> (0 \<le> IndexRune s r \<and> IndexRune s r < int (length s))"
proof (cases "find (\<lambda>p. snd p = r) (rangeString 0 s)")
  case None
  then show ?thesis by (simp add: IndexRune_def)
next
  case (Some p)
  then have "p \<in> set (rangeString 0 s)"
    by (auto simp: find_Some_iff)
  from rangeString_offsets [OF this] Some show ?thesis
    by (simp add: IndexRune_def)
qed

lemma find_None_snd: "find (\<lambda>p. snd p = r) xs = None \<longleftrightarrow> r \<notin> snd ` set xs"
  by (induction xs) auto

lemma IndexRune_absent: "IndexRune s r < 0 \<longleftrightarrow> r \<notin> snd ` set (rangeString 0 s)"
  by (simp add: IndexRune_def find_None_snd [symmetric] split: option.splits)

lemma find_first_sorted:
  fixes xs :: "(nat \<times> 'b) list"
  shows "sorted_wrt (<) (map fst xs) \<Longrightarrow>
     (find (\<lambda>p. snd p = r) xs = Some (i, r')) \<longleftrightarrow>
     (r' = r \<and> (i, r) \<in> set xs \<and> (\<forall>p \<in> set xs. snd p = r \<longrightarrow> i \<le> fst p))"
proof (induction xs)
  case Nil
  then show ?case by simp
next
  case (Cons x xs)
  obtain j q where x: "x = (j, q)" by (cases x)
  from Cons.prems have lt: "\<forall>p \<in> set xs. j < fst p" and srt: "sorted_wrt (<) (map fst xs)"
    by (auto simp: x)
  show ?case
  proof (cases "q = r")
    case True
    have "(i, r) \<in> set xs \<Longrightarrow> \<not> i \<le> j" using lt by fastforce
    with True lt show ?thesis
      by (auto simp: x less_imp_le)
  next
    case False
    have "(i, r) \<in> set xs \<Longrightarrow> j \<le> i" using lt by fastforce
    with False Cons.IH [OF srt] show ?thesis
      by (auto simp: x)
  qed
qed


lemma IndexRune_firstAt: "IndexRune s r = int i \<longleftrightarrow> firstAt s r i"
proof -
  have "IndexRune s r = int i \<longleftrightarrow> (\<exists>r'. find (\<lambda>p. snd p = r) (rangeString 0 s) = Some (i, r'))"
    by (cases "find (\<lambda>p. snd p = r) (rangeString 0 s)") (auto simp: IndexRune_def)
  also have "\<dots> \<longleftrightarrow> firstAt s r i"
    unfolding firstAt_def using find_first_sorted [OF rangeString_sorted, of r 0 s i] by auto
  finally show ?thesis .
qed

section \<open>Glyph lookup\<close>

lemma smod_nonneg_pos: "0 \<le> k \<Longrightarrow> 0 < l \<Longrightarrow> k smod l = k mod (l::int)"
  by (simp add: signed_modulo_int_def sgn_if)

lemma sdiv_nonneg_pos: "0 \<le> k \<Longrightarrow> 0 < l \<Longrightarrow> k sdiv l = k div (l::int)"
  by (simp add: signed_divide_int_def sgn_if)

text \<open>What \<^verbatim>\<open>loadGlyph\<close> does for a rune that \<^verbatim>\<open>IndexRune\<close> finds at offset \<open>i\<close>.\<close>

lemma loadGlyph_index:
  assumes "IndexRune (CharSet font) char = int i"
  shows "loadGlyph font char =
     (if GridWidth font = 0 then Inl DivideByZero
      else if length (CharWidths font) \<le> i then Inl IndexOutOfRange
      else Inr (\<lparr>X = int32 (word_of_int (int i smod sint (GridWidth font)) * (fst (CharSize font) + 1)),
                 Y = int32 (word_of_int (int i sdiv sint (GridWidth font)) * (snd (CharSize font) + 1)),
                 W = int32 (CharWidths font ! i),
                 H = int32 (snd (CharSize font))\<rparr>, []))"
  using assms by (simp add: loadGlyph_def charWidthAt_def Let_def)

lemma fontAB_ranges: "rangeString 0 (CharSet fontAB) = [(0, 0x41), (1, 0x42)]"
  by (simp add: fontAB_def rangeString_Cons decodeRune_def seqLen_def)

text \<open>
  Lookup by byte offset. For a font with a positive \<^verbatim>\<open>GridWidth\<close> and a width for every
  byte offset of the character set, and a character whose first instance in the character
  set is at byte offset \<open>i\<close>, \<^verbatim>\<open>loadGlyph\<close> returns, without logging, the rectangle with
  \<open>x = (i mod GridWidth) * (cellWidth + 1)\<close>, \<open>y = (i div GridWidth) * (cellHeight + 1)\<close>,
  width \<open>CharWidths[i]\<close> and height \<open>cellHeight\<close>, each converted to \<^verbatim>\<open>int32\<close> as the
  fields of the rectangle are; so for \<^verbatim>\<open>'B'\<close> in the font \<^verbatim>\<open>"AB"\<close>, with the rectangle
  \<open>(6, 0, 5, 11)\<close>.
\<close>

theorem loadGlyph_present:
  assumes "0 <s GridWidth font"
    and "length (CharSet font) \<le> length (CharWidths font)"
    and "firstAt (CharSet font) char i"
  shows "loadGlyph font char =
     Inr (\<lparr>X = int32 (word_of_int (int i mod sint (GridWidth font)) * (fst (CharSize font) + 1)),
           Y = int32 (word_of_int (int i div sint (GridWidth font)) * (snd (CharSize font) + 1)),
           W = int32 (CharWidths font ! i),
           H = int32 (snd (CharSize font))\<rparr>, [])"
proof -
  from assms(3) have idx: "IndexRune (CharSet font) char = int i"
    by (simp add: IndexRune_firstAt)
  with IndexRune_range [of "CharSet font" char] assms(2) have "i < length (CharWidths font)"
    by simp
  moreover from assms(1) have "0 < sint (GridWidth font)" and "GridWidth font \<noteq> 0"
    by (auto simp: word_sless_alt)
  ultimately show ?thesis
    by (simp add: loadGlyph_index [OF idx] smod_nonneg_pos sdiv_nonneg_pos)
qed

theorem loadGlyph_present_witness:
  "firstAt (CharSet fontAB) 0x42 1 \<and>
   loadGlyph fontAB 0x42 = Inr (\<lparr>X = 6, Y = 0, W = 5, H = 11\<rparr>, [])"
proof -
  have f: "firstAt (CharSet fontAB) 0x42 1"
    by (simp add: firstAt_def fontAB_ranges)
  have g: "0 <s GridWidth fontAB" "length (CharSet fontAB) \<le> length (CharWidths fontAB)"
    by (simp_all add: fontAB_def word_sless_alt)
  from loadGlyph_present [OF g f] f show ?thesis
    by (simp add: fontAB_def int32_def)
qed

text \<open>
  Claim C4. For a character that is not among the characters of the character set,
  \<^verbatim>\<open>loadGlyph\<close> returns the rectangle of width 0 and height 0 (at the origin), logs that the
  character was not found, and does not panic, whatever the other fields of the font are.
\<close>

theorem loadGlyph_absent:
  assumes "char \<notin> snd ` set (rangeString 0 (CharSet font))"
  shows "loadGlyph font char = Inr (\<lparr>X = 0, Y = 0, W = 0, H = 0\<rparr>, [LogNotFound char])"
  using assms by (simp add: loadGlyph_def IndexRune_absent [symmetric] zeroRect_def)

theorem loadGlyph_absent_witness:
  "0x43 \<notin> snd ` set (rangeString 0 (CharSet fontAB)) \<and>
   loadGlyph fontAB 0x43 = Inr (\<lparr>X = 0, Y = 0, W = 0, H = 0\<rparr>, [LogNotFound 0x43])"
proof -
  have a: "0x43 \<notin> snd ` set (rangeString 0 (CharSet fontAB))"
    by (simp add: fontAB_ranges)
  from loadGlyph_absent [OF a] a show ?thesis by simp
qed

text \<open>
  Claim C9, as amended. For a font whose \<^verbatim>\<open>GridWidth\<close> is at least 1 and whose width
  table is at least as long as the character set has bytes, \<^verbatim>\<open>loadGlyph\<close> returns for
  every rune: the index \<^verbatim>\<open>strings.IndexRune\<close> computes is \<open>-1\<close> or a valid index into the
  table, and the divisor is not zero. With \<^verbatim>\<open>GridWidth = 0\<close> it panics (division by zero)
  for every character of the character set; with another \<^verbatim>\<open>GridWidth\<close> and a table that
  does not reach the byte offset of a character's first instance it panics (index out of
  range) for that character. The witness has \<^verbatim>\<open>'B'\<close> in the font \<^verbatim>\<open>"AB"\<close> for each part.
\<close>

theorem loadGlyph_total:
  "(1 \<le>s GridWidth font \<and> length (CharSet font) \<le> length (CharWidths font) \<longrightarrow>
      (\<exists>res. loadGlyph font char = Inr res) \<and>
      (IndexRune (CharSet font) char = - 1 \<or>
       (0 \<le> IndexRune (CharSet font) char \<and>
        IndexRune (CharSet font) char < int (length (CharWidths font)))))
   \<and> (GridWidth font = 0 \<and> firstAt (CharSet font) char i \<longrightarrow>
         loadGlyph font char = Inl DivideByZero)
   \<and> (GridWidth font \<noteq> 0 \<and> firstAt (CharSet font) char i \<and> length (CharWidths font) \<le> i \<longrightarrow>
         loadGlyph font char = Inl IndexOutOfRange)"
proof (intro conjI impI)
  assume a: "1 \<le>s GridWidth font \<and> length (CharSet font) \<le> length (CharWidths font)"
  then have nz: "GridWidth font \<noteq> 0"
    by (auto simp: word_sle_eq)
  from IndexRune_range [of "CharSet font" char] a
  show idx: "IndexRune (CharSet font) char = - 1 \<or>
       (0 \<le> IndexRune (CharSet font) char \<and>
        IndexRune (CharSet font) char < int (length (CharWidths font)))"
    by auto
  then show "\<exists>res. loadGlyph font char = Inr res"
  proof
    assume "IndexRune (CharSet font) char = - 1"
    then show ?thesis by (simp add: loadGlyph_def)
  next
    assume b: "0 \<le> IndexRune (CharSet font) char \<and>
        IndexRune (CharSet font) char < int (length (CharWidths font))"
    then obtain j where j: "IndexRune (CharSet font) char = int j"
      using nonneg_int_cases by blast
    with b nz show ?thesis
      by (simp add: loadGlyph_index [OF j])
  qed
next
  assume "GridWidth font = 0 \<and> firstAt (CharSet font) char i"
  then show "loadGlyph font char = Inl DivideByZero"
    by (simp add: IndexRune_firstAt [symmetric] loadGlyph_index)
next
  assume "GridWidth font \<noteq> 0 \<and> firstAt (CharSet font) char i \<and> length (CharWidths font) \<le> i"
  then show "loadGlyph font char = Inl IndexOutOfRange"
    by (simp add: IndexRune_firstAt [symmetric] loadGlyph_index)
qed

theorem loadGlyph_total_witness:
  "(\<exists>res. loadGlyph fontAB 0x42 = Inr res) \<and>
   (\<exists>res. loadGlyph fontAB 0x43 = Inr res) \<and>
   IndexRune (CharSet fontAB) 0x42 = 1 \<and>
   IndexRune (CharSet fontAB) 0x43 = - 1 \<and>
   loadGlyph (fontAB\<lparr>GridWidth := 0\<rparr>) 0x42 = Inl DivideByZero \<and>
   loadGlyph (fontAB\<lparr>CharWidths := [5]\<rparr>) 0x42 = Inl IndexOutOfRange"
proof -
  have f: "firstAt (CharSet fontAB) 0x42 1"
    by (simp add: firstAt_def fontAB_ranges)
  have g: "1 \<le>s GridWidth fontAB \<and> length (CharSet fontAB) \<le> length (CharWidths fontAB)"
    by (simp add: fontAB_def word_sle_eq)
  have i1: "IndexRune (CharSet fontAB) 0x42 = 1" and i2: "IndexRune (CharSet fontAB) 0x43 = - 1"
    by (simp_all add: IndexRune_def fontAB_ranges)
  from loadGlyph_total [of fontAB "0x42"] g have 1: "\<exists>res. loadGlyph fontAB 0x42 = Inr res"
    by blast
  from loadGlyph_total [of fontAB "0x43"] g have 2: "\<exists>res. loadGlyph fontAB 0x43 = Inr res"
    by blast
  from loadGlyph_total [of "fontAB\<lparr>GridWidth := 0\<rparr>" "0x42" 1] f
  have 3: "loadGlyph (fontAB\<lparr>GridWidth := 0\<rparr>) 0x42 = Inl DivideByZero"
    by simp
  from loadGlyph_total [of "fontAB\<lparr>CharWidths := [5]\<rparr>" "0x42" 1] f
  have 4: "loadGlyph (fontAB\<lparr>CharWidths := [5]\<rparr>) 0x42 = Inl IndexOutOfRange"
    by (simp add: fontAB_def)
  from 1 2 3 4 i1 i2 show ?thesis by simp
qed

section \<open>A newline between two strings\<close>

text \<open>The newline byte is a sequence of its own and continues none, so the range loop
  over \<open>s\<close>, a newline and \<open>t\<close> is the loop over \<open>s\<close>, the newline, and the loop over \<open>t\<close>,
  whatever bytes \<open>s\<close> ends with.\<close>

lemma decodeRune_ascii: "of_char c < (0x80 :: byte) \<Longrightarrow> decodeRune (c # cs) = (ucast (of_char c :: byte), 1)"
  by (simp add: decodeRune_def seqLen_def)

lemma seqLen_le: "seqLen b \<le> 4"
  by (simp add: seqLen_def)

lemma decodeRune_newline_append:
  "s \<noteq> [] \<Longrightarrow> decodeRune (s @ CHR 0x0A # t) = decodeRune s"
proof (cases s)
  case Nil
  then show "s \<noteq> [] \<Longrightarrow> ?thesis" by simp
next
  case (Cons c0 s')
  show ?thesis
  proof (cases s')
    case Nil
    with Cons show ?thesis
      by (simp add: decodeRune_def Let_def acceptLo_def contByte_def)
  next
    case (Cons c1 s'')
    note c1 = this
    show ?thesis
    proof (cases s'')
      case Nil
      with c1 \<open>s = c0 # s'\<close> show ?thesis
        by (simp add: decodeRune_def Let_def acceptLo_def contByte_def)
    next
      case (Cons c2 s3)
      note c2 = this
      show ?thesis
      proof (cases s3)
        case Nil
        with c1 c2 \<open>s = c0 # s'\<close> show ?thesis
          by (simp add: decodeRune_def Let_def acceptLo_def contByte_def)
      next
        case (Cons c3 s4)
        with c1 c2 \<open>s = c0 # s'\<close> seqLen_le [of "of_char c0"] show ?thesis
          by (simp add: decodeRune_def Let_def)
      qed
    qed
  qed
qed


lemma rangeString_newline_append:
  "rangeString i (s @ CHR 0x0A # t) =
     rangeString i s @ (i + length s, 0x0A) # rangeString (Suc (i + length s)) t"
proof (induction i s rule: rangeString.induct)
  case (1 i s)
  show ?case
  proof (cases "s = []")
    case True
    then show ?thesis
      by (simp add: rangeString_Cons decodeRune_ascii)
  next
    case False
    let ?w = "snd (decodeRune s)"
    from False have w: "1 \<le> ?w" "?w \<le> length s"
      using decodeRune_width [of s] by auto
    have d: "drop ?w (s @ CHR 0x0A # t) = drop ?w s @ CHR 0x0A # t"
      using w by simp
    have "rangeString i (s @ CHR 0x0A # t) =
            (i, fst (decodeRune s)) # rangeString (i + ?w) (drop ?w s @ CHR 0x0A # t)"
      using False by (subst rangeString.simps) (simp only: decodeRune_newline_append [OF False] d, simp)
    also have "rangeString (i + ?w) (drop ?w s @ CHR 0x0A # t) =
         rangeString (i + ?w) (drop ?w s) @ (i + length s, 0x0A) # rangeString (Suc (i + length s)) t"
      using "1.IH" [OF False] w by simp
    finally show ?thesis
      using False by (subst (2) rangeString.simps) simp
  qed
qed

lemma rangeString_shift: "map snd (rangeString i s) = map snd (rangeString j s)"
proof (induction i s arbitrary: j rule: rangeString.induct)
  case (1 i s)
  show ?case
  proof (cases "s = []")
    case True
    then show ?thesis by simp
  next
    case False
    from "1.IH" [OF False, of "j + snd (decodeRune s)"] False show ?thesis
      by (subst rangeString.simps, subst (2) rangeString.simps) simp
  qed
qed

lemma runes_newline_append:
  "map snd (rangeString 0 (s @ CHR 0x0A # t)) =
     map snd (rangeString 0 s) @ 0x0A # map snd (rangeString 0 t)"
  using rangeString_shift [of "Suc (length s)" t 0] by (simp add: rangeString_newline_append)

section \<open>Immediate mode\<close>

lemma renderLoop_append:
  "renderLoop font copyErr col x (rs1 @ rs2) st =
     (case renderLoop font copyErr col x rs1 st of
        (st', Some p) \<Rightarrow> (st', Some p)
      | (st', None) \<Rightarrow> renderLoop font copyErr col x rs2 st')"
proof (induction rs1 arbitrary: st)
  case Nil
  then show ?case by simp
next
  case (Cons r rs1)
  then show ?case
    by (cases "renderChar font copyErr col x r st") (auto split: option.splits)
qed

lemma renderChar_newline:
  "renderChar font copyErr col x 0x0A st =
     (st\<lparr>cursorX := x, cursorY := cursorY st + (snd (CharSize font) + NewlinePad font)\<rparr>, None)"
  by (simp add: renderChar_def)

lemma fontAB_fields [simp]:
  "GridWidth fontAB = 10" "CharSize fontAB = (5, 11)" "CharSet fontAB = ''AB''"
  "CharWidths fontAB = [5, 5]" "NewlinePad fontAB = 5" "LetterPad fontAB = 1"
  by (simp_all add: fontAB_def)

text \<open>
  Claim C6. In immediate mode a newline issues no draw call, puts the horizontal cursor
  back to the starting \<open>x\<close> and moves the vertical cursor down by
  \<open>cellHeight + NewlinePad\<close>: rendering \<open>s\<close>, a newline and \<open>t\<close> is rendering \<open>s\<close> and,
  when that did not panic, going on with \<open>t\<close> from the state \<open>s\<close> left, with the same
  events and the cursor so changed. The witness is the example of the specification:
  the string \<^verbatim>\<open>A\<close>, newline, \<^verbatim>\<open>B\<close> from \<open>(10, 10)\<close> draws \<^verbatim>\<open>'A'\<close> at \<open>(10, 10)\<close> and
  \<^verbatim>\<open>'B'\<close> at \<open>(10, 26)\<close>.
\<close>

theorem renderString_newline:
  "renderString font copyErr (s @ CHR 0x0A # t) x y col =
     (case renderString font copyErr s x y col of
        (st, Some p) \<Rightarrow> (st, Some p)
      | (st, None) \<Rightarrow>
          renderLoop font copyErr col x (map snd (rangeString 0 t))
            (st\<lparr>cursorX := x, cursorY := cursorY st + (snd (CharSize font) + NewlinePad font)\<rparr>))"
  by (simp add: renderString_def runes_newline_append renderLoop_append renderChar_newline
        split: prod.splits option.splits)

theorem renderString_newline_witness:
  "renderString fontAB (\<lambda>tr. False) (''A'' @ CHR 0x0A # ''B'') 10 10 (255, 255, 255) =
     (\<lparr>cursorX = 16, cursorY = 26,
       trace = [SetColorMod (255, 255, 255),
                RendererCopy \<lparr>X = 0, Y = 0, W = 5, H = 11\<rparr> \<lparr>X = 10, Y = 10, W = 5, H = 11\<rparr>,
                SetColorMod (255, 255, 255),
                RendererCopy \<lparr>X = 6, Y = 0, W = 5, H = 11\<rparr> \<lparr>X = 10, Y = 26, W = 5, H = 11\<rparr>]\<rparr>,
      None)"
proof -
  have a: "renderString fontAB (\<lambda>tr. False) ''A'' 10 10 (255, 255, 255) =
     (\<lparr>cursorX = 16, cursorY = 10,
       trace = [SetColorMod (255, 255, 255),
                RendererCopy \<lparr>X = 0, Y = 0, W = 5, H = 11\<rparr> \<lparr>X = 10, Y = 10, W = 5, H = 11\<rparr>]\<rparr>,
      None)"
    by code_simp
  have b: "renderLoop fontAB (\<lambda>tr. False) (255, 255, 255) 10 (map snd (rangeString 0 ''B''))
      \<lparr>cursorX = 10, cursorY = 26,
       trace = [SetColorMod (255, 255, 255),
                RendererCopy \<lparr>X = 0, Y = 0, W = 5, H = 11\<rparr> \<lparr>X = 10, Y = 10, W = 5, H = 11\<rparr>]\<rparr> =
     (\<lparr>cursorX = 16, cursorY = 26,
       trace = [SetColorMod (255, 255, 255),
                RendererCopy \<lparr>X = 0, Y = 0, W = 5, H = 11\<rparr> \<lparr>X = 10, Y = 10, W = 5, H = 11\<rparr>,
                SetColorMod (255, 255, 255),
                RendererCopy \<lparr>X = 6, Y = 0, W = 5, H = 11\<rparr> \<lparr>X = 10, Y = 26, W = 5, H = 11\<rparr>]\<rparr>,
      None)"
    by code_simp
  show ?thesis
    using renderString_newline [of fontAB "\<lambda>tr. False" "''A''" "''B''" 10 10 "(255, 255, 255)"]
    by (simp add: a b)
qed

section \<open>No panic with a well-formed font\<close>

lemma charWidthAt_IndexRune:
  assumes "length (CharSet font) \<le> length (CharWidths font)"
    and "0 \<le> IndexRune (CharSet font) char"
  shows "\<exists>w. charWidthAt font (IndexRune (CharSet font) char) = Inr w"
  using assms IndexRune_range [of "CharSet font" char] by (auto simp: charWidthAt_def)

lemma loadGlyph_wellFormed:
  assumes "wellFormed font"
  shows "\<exists>res. loadGlyph font char = Inr res"
proof (cases "IndexRune (CharSet font) char < 0")
  case True
  then show ?thesis by (simp add: loadGlyph_def)
next
  case False
  then obtain i where i: "IndexRune (CharSet font) char = int i"
    using nonneg_int_cases [of "IndexRune (CharSet font) char"] by auto
  with assms IndexRune_range [of "CharSet font" char] show ?thesis
    by (simp add: loadGlyph_index [OF i] wellFormed_def)
qed

lemma loadGlyph_drawn_index:
  assumes "loadGlyph font char = Inr (r, logs)" and "W r \<noteq> 0"
  shows "0 \<le> IndexRune (CharSet font) char"
  using assms by (cases "IndexRune (CharSet font) char < 0") (auto simp: loadGlyph_def zeroRect_def)

lemma renderChar_no_panic:
  assumes "wellFormed font"
  shows "snd (renderChar font copyErr col x char st) = None"
proof -
  obtain r logs where lg: "loadGlyph font char = Inr (r, logs)"
    using loadGlyph_wellFormed [OF assms, of char] by auto
  show ?thesis
  proof (cases "char = 0x0A \<or> W r = 0 \<or> H r = 0")
    case True
    then show ?thesis by (auto simp: renderChar_def lg Let_def)
  next
    case False
    then have "0 \<le> IndexRune (CharSet font) char"
      using loadGlyph_drawn_index [OF lg] by simp
    then obtain w where "charWidthAt font (IndexRune (CharSet font) char) = Inr w"
      using charWidthAt_IndexRune assms by (auto simp: wellFormed_def)
    with False show ?thesis
      by (simp add: renderChar_def lg Let_def)
  qed
qed

lemma renderLoop_no_panic:
  assumes "wellFormed font"
  shows "snd (renderLoop font copyErr col x rs st) = None"
proof (induction rs arbitrary: st)
  case Nil
  then show ?case by simp
next
  case (Cons r rs)
  obtain st' where "renderChar font copyErr col x r st = (st', None)"
    using renderChar_no_panic [OF assms, of copyErr col x r st]
    by (cases "renderChar font copyErr col x r st") auto
  with Cons show ?case by simp
qed

lemma blitChar_no_panic:
  assumes "wellFormed font"
  shows "snd (blitChar font char st) = None"
proof -
  obtain r logs where lg: "loadGlyph font char = Inr (r, logs)"
    using loadGlyph_wellFormed [OF assms, of char] by auto
  show ?thesis
  proof (cases "char = 0x0A \<or> W r = 0 \<or> H r = 0")
    case True
    then show ?thesis by (auto simp: blitChar_def lg Let_def)
  next
    case False
    then have "0 \<le> IndexRune (CharSet font) char"
      using loadGlyph_drawn_index [OF lg] by simp
    then obtain w where "charWidthAt font (IndexRune (CharSet font) char) = Inr w"
      using charWidthAt_IndexRune assms by (auto simp: wellFormed_def)
    with False show ?thesis
      by (simp add: blitChar_def lg Let_def)
  qed
qed

lemma blitLoop_no_panic:
  assumes "wellFormed font"
  shows "snd (blitLoop font rs st) = None"
proof (induction rs arbitrary: st)
  case Nil
  then show ?case by simp
next
  case (Cons r rs)
  obtain st' where "blitChar font r st = (st', None)"
    using blitChar_no_panic [OF assms, of r st]
    by (cases "blitChar font r st") auto
  with Cons show ?case by simp
qed

section \<open>Characters that are not drawn\<close>

lemma emit_Nil [simp]: "emit [] st = st"
  by (simp add: emit_def)

lemma renderChar_unknown:
  assumes "char \<notin> snd ` set (rangeString 0 (CharSet font))" and "char \<noteq> 0x0A"
  shows "renderChar font copyErr col x char st = (emit [LogNotFound char] st, None)"
  using assms by (simp add: renderChar_def loadGlyph_def IndexRune_absent [symmetric] zeroRect_def)

lemma blitChar_unknown:
  assumes "char \<notin> snd ` set (rangeString 0 (CharSet font))" and "char \<noteq> 0x0A"
  shows "blitChar font char st = (emit [LogNotFound char] st, None)"
  using assms by (simp add: blitChar_def loadGlyph_def IndexRune_absent [symmetric] zeroRect_def)

lemma rangeString_single_ascii:
  "of_char c < (0x80 :: byte) \<Longrightarrow> rangeString i [c] = [(i, ucast (of_char c :: byte))]"
  by (simp add: rangeString_Cons decodeRune_ascii)

lemma getStringLen_single_ascii:
  assumes "of_char c < (0x80 :: byte)"
  shows "getStringLen font [c] =
     (case charWidthAt font (IndexRune (CharSet font) (ucast (of_char c :: byte))) of
        Inl p \<Rightarrow> Inl p
      | Inr w \<Rightarrow> Inr (w + LetterPad font))"
  using assms by (simp add: getStringLen_def rangeString_single_ascii split: sum.splits)

text \<open>
  The rectangle of zero area is also the sign for a character that was not found. With a
  \<^verbatim>\<open>GridWidth\<close> other than 0, a character of the character set, other than the newline,
  whose entry in the width table is 0 goes the way of an unknown one in both loops: no
  copy and no blit, the cursor stays (the whole state does; an unknown character adds its
  log line), no panic. Measurement adds the horizontal pad for it when the character is a
  single byte.
\<close>

theorem zero_width_glyph:
  assumes "GridWidth font \<noteq> 0"
    and "firstAt (CharSet font) char i"
    and "i < length (CharWidths font)"
    and "CharWidths font ! i = 0"
    and "char \<noteq> 0x0A"
  shows "renderChar font copyErr col x char st = (st, None) \<and>
         blitChar font char st = (st, None) \<and>
         (\<forall>c. of_char c < (0x80 :: byte) \<and> char = ucast (of_char c :: byte) \<longrightarrow>
              getStringLen font [c] = Inr (LetterPad font))"
proof -
  from assms(2) have idx: "IndexRune (CharSet font) char = int i"
    by (simp add: IndexRune_firstAt)
  have lg: "loadGlyph font char =
      Inr (\<lparr>X = int32 (word_of_int (int i smod sint (GridWidth font)) * (fst (CharSize font) + 1)),
            Y = int32 (word_of_int (int i sdiv sint (GridWidth font)) * (snd (CharSize font) + 1)),
            W = 0, H = int32 (snd (CharSize font))\<rparr>, [])"
    using assms by (simp add: loadGlyph_index [OF idx] int32_def)
  have cw: "charWidthAt font (int i) = Inr 0"
    using assms by (simp add: charWidthAt_def)
  have 1: "renderChar font copyErr col x char st = (st, None)"
    using assms(5) by (simp add: renderChar_def lg)
  have 2: "blitChar font char st = (st, None)"
    using assms(5) by (simp add: blitChar_def lg)
  have 3: "getStringLen font [c] = Inr (LetterPad font)"
    if "of_char c < (0x80 :: byte) \<and> char = ucast (of_char c :: byte)" for c
  proof -
    from that idx have "IndexRune (CharSet font) (ucast (of_char c :: byte)) = int i"
      by blast
    with that cw show ?thesis
      by (simp add: getStringLen_single_ascii)
  qed
  from 1 2 3 show ?thesis by blast
qed

theorem zero_width_glyph_witness:
  "firstAt (CharSet fontZero) 0x42 1 \<and> CharWidths fontZero ! 1 = 0 \<and>
   renderChar fontZero (\<lambda>tr. False) (255, 255, 255) 10 0x42 \<lparr>cursorX = 16, cursorY = 10, trace = []\<rparr> =
     (\<lparr>cursorX = 16, cursorY = 10, trace = []\<rparr>, None) \<and>
   blitChar fontZero 0x42 \<lparr>cursorX = 16, cursorY = 10, trace = []\<rparr> =
     (\<lparr>cursorX = 16, cursorY = 10, trace = []\<rparr>, None) \<and>
   getStringLen fontZero ''B'' = Inr 1"
proof -
  have f: "firstAt (CharSet fontZero) 0x42 1"
    by (simp add: firstAt_def fontZero_def rangeString_Cons decodeRune_ascii)
  have g: "GridWidth fontZero \<noteq> 0" "1 < length (CharWidths fontZero)" "CharWidths fontZero ! 1 = 0"
    "(0x42 :: rune) \<noteq> 0x0A"
    by (simp_all add: fontZero_def)
  have p: "LetterPad fontZero = 1"
    by (simp add: fontZero_def)
  have b: "of_char CHR ''B'' < (0x80 :: byte) \<and> (0x42 :: rune) = ucast (of_char CHR ''B'' :: byte)"
    by simp
  note z = zero_width_glyph [OF g(1) f g(2) g(3) g(4), of "\<lambda>tr. False" "(255, 255, 255)" 10
      "\<lparr>cursorX = 16, cursorY = 10, trace = []\<rparr>"]
  from z b have "getStringLen fontZero ''B'' = Inr (LetterPad fontZero)"
    by blast
  with z f g(3) p show ?thesis
    by simp
qed


text \<open>
  Claim C10 has a character of the character set with width 0 skipped by both loops like
  an unknown one, and measured as the pad alone. The loops do skip it, and
  \<^verbatim>\<open>getStringLen\<close> measures \<^verbatim>\<open>'B'\<close> of width 0 as the pad, 1. For a character of two bytes
  \<^verbatim>\<open>getStringLen\<close> looks up the first byte as if it were a rune, where the loops look
  up the decoded rune: with the character set of the one character U+00E9 (bytes C3 A9)
  and width 0, both loops leave the state as it is and measuring that very character
  panics.
\<close>

theorem zero_width_measure_panics:
  "IndexRune (CharSet fontAccent) 0xE9 = 0 \<and> CharWidths fontAccent ! 0 = 0 \<and>
   renderString fontAccent (\<lambda>tr. False) [CHR 0xC3, CHR 0xA9] 10 10 (255, 255, 255) =
     (\<lparr>cursorX = 10, cursorY = 10, trace = []\<rparr>, None) \<and>
   blitChar fontAccent 0xE9 \<lparr>cursorX = 0, cursorY = 0, trace = []\<rparr> =
     (\<lparr>cursorX = 0, cursorY = 0, trace = []\<rparr>, None) \<and>
   getStringLen fontAccent [CHR 0xC3, CHR 0xA9] = Inl IndexOutOfRange \<and>
   getStringLen fontZero ''B'' = Inr 1"
proof -
  have r: "rangeString 0 (CharSet fontAccent) = [(0, 0xE9)]"
    by (simp add: fontAccent_def rangeString_Cons decodeRune_def seqLen_def acceptLo_def
          acceptHi_def bits_def Let_def)
  have 1: "IndexRune (CharSet fontAccent) 0xE9 = 0"
    by (simp add: IndexRune_def r)
  have 2: "getStringLen fontAccent [CHR 0xC3, CHR 0xA9] = Inl IndexOutOfRange"
    using r by (simp add: getStringLen_def IndexRune_def charWidthAt_def fontAccent_def)
  have 3: "renderString fontAccent (\<lambda>tr. False) [CHR 0xC3, CHR 0xA9] 10 10 (255, 255, 255) =
     (\<lparr>cursorX = 10, cursorY = 10, trace = []\<rparr>, None)"
    by code_simp
  have 4: "blitChar fontAccent 0xE9 \<lparr>cursorX = 0, cursorY = 0, trace = []\<rparr> =
     (\<lparr>cursorX = 0, cursorY = 0, trace = []\<rparr>, None)"
    by code_simp
  have 5: "getStringLen fontZero ''B'' = Inr 1"
    by code_simp
  from 1 2 3 4 5 show ?thesis
    by (simp add: fontAccent_def)
qed

section \<open>Surface mode\<close>

lemma blitChar_trace: "\<exists>es. trace (fst (blitChar font char st)) = trace st @ es"
  by (auto simp: blitChar_def emit_def Let_def split: sum.splits prod.splits)

lemma blitLoop_trace: "\<exists>es. trace (fst (blitLoop font rs st)) = trace st @ es"
proof (induction rs arbitrary: st)
  case Nil
  then show ?case by simp
next
  case (Cons r rs)
  obtain st' q where step: "blitChar font r st = (st', q)"
    by (cases "blitChar font r st")
  from blitChar_trace [of font r st] step obtain es where es: "trace st' = trace st @ es"
    by auto
  show ?case
  proof (cases q)
    case None
    from Cons [of st'] obtain es' where "trace (fst (blitLoop font rs st')) = trace st' @ es'"
      by auto
    with None step es show ?thesis by simp
  next
    case (Some p)
    with step es show ?thesis by simp
  qed
qed

text \<open>
  Claim C7. In surface mode the new surface is as wide as the measured string and as high
  as a cell (both converted to \<^verbatim>\<open>int32\<close>), whatever the number of lines: with a
  well-formed font, a string \<^verbatim>\<open>getStringLen\<close> measures and a successful
  \<^verbatim>\<open>sdl.CreateRGBSurface\<close>, \<^verbatim>\<open>RenderString\<close> asks SDL first for a surface of that size
  and returns it; and every surface it returns has that size. The witness has a font with
  the newline in its character set: one line and two lines both give height 11, and the
  second line is blitted at \<open>y = 16\<close>, below the surface (\<open>RenderString_lines_example\<close>).
\<close>

theorem RenderString_surface:
  "(wellFormed font \<and> getStringLen font text_in = Inr ln \<and>
      \<not> createErr (int32 ln) (int32 (snd (CharSize font))) \<longrightarrow>
      (\<exists>tr. RenderString font createErr text_in col =
         (CreateRGBSurface (int32 ln) (int32 (snd (CharSize font))) # SetColorMod col # tr,
          Inr \<lparr>SurfaceW = int32 ln, SurfaceH = int32 (snd (CharSize font))\<rparr>)))
   \<and> (RenderString font createErr text_in col = (tr', Inr surf) \<longrightarrow>
      (\<exists>ln. getStringLen font text_in = Inr ln \<and>
         surf = \<lparr>SurfaceW = int32 ln, SurfaceH = int32 (snd (CharSize font))\<rparr>))"
proof (intro conjI impI)
  assume a: "wellFormed font \<and> getStringLen font text_in = Inr ln \<and>
      \<not> createErr (int32 ln) (int32 (snd (CharSize font)))"
  let ?st0 = "\<lparr>cursorX = 0, cursorY = 0,
       trace = [CreateRGBSurface (int32 ln) (int32 (snd (CharSize font))), SetColorMod col]\<rparr>"
  obtain st where st: "blitLoop font (map snd (rangeString 0 text_in)) ?st0 = (st, None)"
    using blitLoop_no_panic [of font "map snd (rangeString 0 text_in)" ?st0] a
    by (cases "blitLoop font (map snd (rangeString 0 text_in)) ?st0") auto
  from blitLoop_trace [of font "map snd (rangeString 0 text_in)" ?st0] st
  obtain es where "trace st =
      CreateRGBSurface (int32 ln) (int32 (snd (CharSize font))) # SetColorMod col # es"
    by auto
  with a st show "\<exists>tr. RenderString font createErr text_in col =
         (CreateRGBSurface (int32 ln) (int32 (snd (CharSize font))) # SetColorMod col # tr,
          Inr \<lparr>SurfaceW = int32 ln, SurfaceH = int32 (snd (CharSize font))\<rparr>)"
    by (simp add: RenderString_def Let_def)
next
  assume "RenderString font createErr text_in col = (tr', Inr surf)"
  then show "\<exists>ln. getStringLen font text_in = Inr ln \<and>
         surf = \<lparr>SurfaceW = int32 ln, SurfaceH = int32 (snd (CharSize font))\<rparr>"
    by (auto simp: RenderString_def Let_def split: sum.splits if_splits prod.splits option.splits)
qed

theorem RenderString_surface_witness:
  "(\<exists>tr. RenderString fontLines (\<lambda>w h. False) ''AB'' (255, 255, 255) =
       (CreateRGBSurface 12 11 # SetColorMod (255, 255, 255) # tr,
        Inr \<lparr>SurfaceW = 12, SurfaceH = 11\<rparr>)) \<and>
   (\<exists>tr. RenderString fontLines (\<lambda>w h. False) (''A'' @ CHR 0x0A # ''B'') (255, 255, 255) =
       (CreateRGBSurface 13 11 # SetColorMod (255, 255, 255) # tr,
        Inr \<lparr>SurfaceW = 13, SurfaceH = 11\<rparr>))"
proof -
  have wf: "wellFormed fontLines"
    by (simp add: wellFormed_def fontLines_def)
  have h: "snd (CharSize fontLines) = 11"
    by (simp add: fontLines_def)
  have m1: "getStringLen fontLines ''AB'' = Inr 12"
    by code_simp
  have m2: "getStringLen fontLines (''A'' @ CHR 0x0A # ''B'') = Inr 13"
    by code_simp
  from RenderString_surface [of fontLines "''AB''" 12 "\<lambda>w h. False" "(255, 255, 255)"] wf m1
  have 1: "\<exists>tr. RenderString fontLines (\<lambda>w h. False) ''AB'' (255, 255, 255) =
       (CreateRGBSurface 12 11 # SetColorMod (255, 255, 255) # tr,
        Inr \<lparr>SurfaceW = 12, SurfaceH = 11\<rparr>)"
    by (simp add: h int32_def)
  from RenderString_surface [of fontLines "''A'' @ CHR 0x0A # ''B''" 13 "\<lambda>w h. False" "(255, 255, 255)"] wf m2
  have 2: "\<exists>tr. RenderString fontLines (\<lambda>w h. False) (''A'' @ CHR 0x0A # ''B'') (255, 255, 255) =
       (CreateRGBSurface 13 11 # SetColorMod (255, 255, 255) # tr,
        Inr \<lparr>SurfaceW = 13, SurfaceH = 11\<rparr>)"
    by (simp add: h int32_def)
  from 1 2 show ?thesis by blast
qed

lemma RenderString_lines_example:
  "RenderString fontLines (\<lambda>w h. False) (''A'' @ CHR 0x0A # ''B'') (255, 255, 255) =
     ([CreateRGBSurface 13 11, SetColorMod (255, 255, 255),
       Blit \<lparr>X = 0, Y = 0, W = 5, H = 11\<rparr> \<lparr>X = 0, Y = 0, W = 5, H = 11\<rparr>,
       Blit \<lparr>X = 6, Y = 0, W = 5, H = 11\<rparr> \<lparr>X = 0, Y = 16, W = 5, H = 11\<rparr>],
      Inr \<lparr>SurfaceW = 13, SurfaceH = 11\<rparr>)"
  by code_simp

section \<open>Unknown characters in immediate mode\<close>

lemma renderString_no_panic:
  "wellFormed font \<Longrightarrow> snd (renderString font copyErr text_in x y col) = None"
  by (simp add: renderString_def renderLoop_no_panic)

lemma renderLoop_unknown:
  assumes "\<forall>r \<in> set rs. r \<notin> snd ` set (rangeString 0 (CharSet font)) \<and> r \<noteq> 0x0A"
  shows "renderLoop font copyErr col x rs st = (emit (map LogNotFound rs) st, None)"
  using assms
proof (induction rs arbitrary: st)
  case Nil
  then show ?case by simp
next
  case (Cons r rs)
  then show ?case
    by (simp add: renderChar_unknown emit_def)
qed

lemma renderString_unknown_only:
  assumes "\<forall>r \<in> set (map snd (rangeString 0 s)).
             r \<notin> snd ` set (rangeString 0 (CharSet font)) \<and> r \<noteq> 0x0A"
  shows "renderString font copyErr s x y col =
     (\<lparr>cursorX = x, cursorY = y, trace = map LogNotFound (map snd (rangeString 0 s))\<rparr>, None)"
  using assms by (simp add: renderString_def renderLoop_unknown emit_def)

section \<open>Strings of single-byte characters\<close>

lemma rangeString_ascii:
  "\<forall>c \<in> set s. of_char c < (0x80 :: byte) \<Longrightarrow>
     rangeString i s = zip [i ..< i + length s] (map (\<lambda>c. ucast (of_char c :: byte)) s)"
proof (induction s arbitrary: i)
  case Nil
  then show ?case by simp
next
  case (Cons c s)
  have u: "[i ..< i + length (c # s)] = i # [Suc i ..< Suc i + length s]"
    by (simp add: upt_conv_Cons del: upt_Suc)
  from Cons.prems have "rangeString i (c # s) = (i, ucast (of_char c :: byte)) # rangeString (Suc i) s"
    by (simp add: rangeString_Cons decodeRune_ascii)
  also have "rangeString (Suc i) s = zip [Suc i ..< Suc i + length s] (map (\<lambda>c. ucast (of_char c :: byte)) s)"
    using Cons by simp
  finally show ?case
    unfolding u by simp
qed

lemma runes_ascii:
  "\<forall>c \<in> set s. of_char c < (0x80 :: byte) \<Longrightarrow>
     map snd (rangeString 0 s) = map (\<lambda>c. ucast (of_char c :: byte)) s"
  by (simp add: rangeString_ascii)

lemma startBytes_ascii:
  assumes "\<forall>c \<in> set s. of_char c < (0x80 :: byte)"
  shows "map (\<lambda>p. of_char (s ! fst p) :: byte) (rangeString 0 s) = map of_char s"
proof -
  have "map (\<lambda>p. of_char (s ! fst p) :: byte) (rangeString 0 s) =
        map (\<lambda>j. of_char (s ! j)) (map fst (rangeString 0 s))"
    by simp
  also have "map fst (rangeString 0 s) = [0 ..< length s]"
    using assms by (simp add: rangeString_ascii)
  also have "map (\<lambda>j. of_char (s ! j) :: byte) [0 ..< length s] = map of_char (map (\<lambda>j. s ! j) [0 ..< length s])"
    by simp
  also have "\<dots> = map of_char s"
    by (simp only: map_nth)
  finally show ?thesis .
qed

lemma sumWidths_append:
  "sumWidths font (bs1 @ bs2) ln =
     (case sumWidths font bs1 ln of Inl p \<Rightarrow> Inl p | Inr a \<Rightarrow> sumWidths font bs2 a)"
  by (induction bs1 arbitrary: ln) (auto split: sum.splits)

lemma sumWidths_acc:
  "sumWidths font bs ln =
     (case sumWidths font bs 0 of Inl p \<Rightarrow> Inl p | Inr a \<Rightarrow> Inr (ln + a))"
proof (induction bs arbitrary: ln)
  case Nil
  then show ?case by simp
next
  case (Cons b bs)
  show ?case
  proof (cases "charWidthAt font (IndexRune (CharSet font) (ucast b))")
    case (Inl p)
    then show ?thesis by simp
  next
    case (Inr w)
    from Cons [of "ln + (w + LetterPad font)"] Cons [of "0 + (w + LetterPad font)"] Inr
    show ?thesis
      by (auto split: sum.splits simp: add.assoc)
  qed
qed

text \<open>The advance of a single-byte character: its width in the table and the pad.\<close>

lemma getStringLen_ascii:
  assumes "\<forall>c \<in> set s. of_char c < (0x80 :: byte) \<and>
             (\<exists>i. firstAt (CharSet font) (ucast (of_char c :: byte)) i \<and> i < length (CharWidths font))"
  shows "getStringLen font s =
     Inr (\<Sum>c\<leftarrow>s. CharWidths font ! nat (IndexRune (CharSet font) (ucast (of_char c :: byte)))
                   + LetterPad font)"
proof -
  have "sumWidths font (map of_char s) ln =
     Inr (ln + (\<Sum>c\<leftarrow>s. CharWidths font ! nat (IndexRune (CharSet font) (ucast (of_char c :: byte)))
                   + LetterPad font))" for ln
    using assms
  proof (induction s arbitrary: ln)
    case Nil
    then show ?case by simp
  next
    case (Cons c s)
    from Cons.prems obtain i where i: "IndexRune (CharSet font) (ucast (of_char c :: byte)) = int i"
      "i < length (CharWidths font)"
      by (auto simp: IndexRune_firstAt)
    then have "charWidthAt font (IndexRune (CharSet font) (ucast (of_char c :: byte))) =
        Inr (CharWidths font ! i)"
      by (simp add: charWidthAt_def)
    with Cons i show ?case
      by (simp add: add.assoc)
  qed
  from this [of 0] assms show ?thesis
    by (simp add: getStringLen_def startBytes_ascii)
qed

section \<open>Measuring characters the font does not know\<close>

text \<open>
  Claim C3 has \<^verbatim>\<open>getStringLen\<close> return, for every string, the sum over its characters of
  the character's width and the pad. It does for strings of single-byte characters of the
  character set (\<open>getStringLen_ascii\<close> above). It panics on a character that is not in
  the set (\<^verbatim>\<open>"C"\<close> with the font \<^verbatim>\<open>"AB"\<close>), and it looks a character of several bytes up by
  its first byte: U+263A is in the character set of \<open>fontSmiley\<close> with width 5 and
  \<^verbatim>\<open>renderString\<close> draws it and advances by 6, but measuring it panics.
\<close>

theorem getStringLen_panics:
  "getStringLen fontAB ''AB'' = Inr 12 \<and>
   getStringLen fontAB ''C'' = Inl IndexOutOfRange \<and>
   IndexRune (CharSet fontSmiley) 0x263A = 1 \<and> CharWidths fontSmiley ! 1 = 5 \<and>
   getStringLen fontSmiley [CHR 0xE2, CHR 0x98, CHR 0xBA] = Inl IndexOutOfRange \<and>
   renderString fontSmiley (\<lambda>tr. False) [CHR 0xE2, CHR 0x98, CHR 0xBA] 0 0 (255, 255, 255) =
     (\<lparr>cursorX = 6, cursorY = 0,
       trace = [SetColorMod (255, 255, 255),
                RendererCopy \<lparr>X = 6, Y = 0, W = 5, H = 11\<rparr> \<lparr>X = 0, Y = 0, W = 5, H = 11\<rparr>]\<rparr>, None)"
proof -
  have r: "rangeString 0 (CharSet fontSmiley) = [(0, 0x41), (1, 0x263A)]"
    by code_simp
  have 1: "IndexRune (CharSet fontSmiley) 0x263A = 1"
    by (simp add: IndexRune_def r)
  have 2: "getStringLen fontAB ''AB'' = Inr 12" "getStringLen fontAB ''C'' = Inl IndexOutOfRange"
    by code_simp+
  have 3: "getStringLen fontSmiley [CHR 0xE2, CHR 0x98, CHR 0xBA] = Inl IndexOutOfRange"
    by code_simp
  have 4: "renderString fontSmiley (\<lambda>tr. False) [CHR 0xE2, CHR 0x98, CHR 0xBA] 0 0 (255, 255, 255) =
     (\<lparr>cursorX = 6, cursorY = 0,
       trace = [SetColorMod (255, 255, 255),
                RendererCopy \<lparr>X = 6, Y = 0, W = 5, H = 11\<rparr> \<lparr>X = 0, Y = 0, W = 5, H = 11\<rparr>]\<rparr>, None)"
    by code_simp
  from 1 2 3 4 show ?thesis by (simp add: fontSmiley_def)
qed



section \<open>Measuring a concatenation\<close>

lemma decodeRune_valid_append:
  assumes "s \<noteq> []" and "decodeRune s \<noteq> (RuneError, 1)"
  shows "decodeRune (s @ t) = decodeRune s"
proof -
  from assms(1) obtain c0 s' where s: "s = c0 # s'" by (cases s) auto
  show ?thesis
  proof (cases s')
    case Nil
    with s assms(2) show ?thesis
      by (simp add: decodeRune_def Let_def split: if_splits)
  next
    case (Cons c1 s'')
    note c1 = this
    show ?thesis
    proof (cases s'')
      case Nil
      with c1 s assms(2) show ?thesis
        by (simp add: decodeRune_def Let_def split: if_splits)
    next
      case (Cons c2 s3)
      note c2 = this
      show ?thesis
      proof (cases s3)
        case Nil
        with c1 c2 s assms(2) show ?thesis
          by (simp add: decodeRune_def Let_def split: if_splits)
      next
        case (Cons c3 s4)
        with c1 c2 s seqLen_le [of "of_char c0"] show ?thesis
          by (simp add: decodeRune_def Let_def)
      qed
    qed
  qed
qed


lemma rangeString_valid_append:
  "validString s \<Longrightarrow> rangeString i (s @ t) = rangeString i s @ rangeString (i + length s) t"
proof (induction i s rule: rangeString.induct)
  case (1 i s)
  show ?case
  proof (cases "s = []")
    case True
    then show ?thesis by simp
  next
    case False
    let ?w = "snd (decodeRune s)"
    from False have w: "1 \<le> ?w" "?w \<le> length s"
      using decodeRune_width [of s] by auto
    from "1.prems" False have v: "decodeRune s \<noteq> (RuneError, 1)" "validString (drop ?w s)"
      by (subst (asm) validString.simps, simp split: if_splits)+
    have d: "drop ?w (s @ t) = drop ?w s @ t"
      using w by simp
    have "rangeString i (s @ t) = (i, fst (decodeRune s)) # rangeString (i + ?w) (drop ?w s @ t)"
      using False by (subst rangeString.simps) (simp only: decodeRune_valid_append [OF False v(1)] d, simp)
    also have "rangeString (i + ?w) (drop ?w s @ t) =
         rangeString (i + ?w) (drop ?w s) @ rangeString (i + length s) t"
      using "1.IH" [OF False v(2)] w by simp
    finally show ?thesis
      using False by (subst (2) rangeString.simps) simp
  qed
qed

lemma rangeString_offset:
  "rangeString (i + k) s = map (\<lambda>p. (fst p + k, snd p)) (rangeString i s)"
proof (induction i s rule: rangeString.induct)
  case (1 i s)
  show ?case
  proof (cases "s = []")
    case True
    then show ?thesis by simp
  next
    case False
    from "1.IH" [OF False] False show ?thesis
      by (subst rangeString.simps, subst (2) rangeString.simps) (simp add: ac_simps)
  qed
qed

lemma startBytes_append:
  assumes "validString s"
  shows "map (\<lambda>p. of_char ((s @ t) ! fst p) :: byte) (rangeString 0 (s @ t)) =
         map (\<lambda>p. of_char (s ! fst p)) (rangeString 0 s) @
         map (\<lambda>p. of_char (t ! fst p)) (rangeString 0 t)"
proof -
  have 1: "map (\<lambda>p. of_char ((s @ t) ! fst p) :: byte) (rangeString 0 s) =
           map (\<lambda>p. of_char (s ! fst p)) (rangeString 0 s)"
    using rangeString_offsets [of _ 0 s] by (intro map_cong) (auto simp: nth_append)
  have 2: "map (\<lambda>p. of_char ((s @ t) ! fst p) :: byte) (rangeString (0 + length s) t) =
           map (\<lambda>p. of_char (t ! fst p)) (rangeString 0 t)"
    by (simp only: rangeString_offset) (simp add: nth_append o_def)
  from 1 2 show ?thesis
    by (simp add: rangeString_valid_append [OF assms])
qed

text \<open>
  Claim C8, as amended. Measurement is additive over concatenation when the first string
  is valid UTF-8: if \<^verbatim>\<open>getStringLen\<close> measures \<open>s\<close> and \<open>t\<close>, it measures \<open>s @ t\<close> as the
  sum, each character's term with its pad. The witness is the example of the
  specification: \<^verbatim>\<open>"AB"\<close> measures as \<^verbatim>\<open>"A"\<close> plus \<^verbatim>\<open>"B"\<close>.
\<close>

theorem getStringLen_append:
  assumes "validString s"
    and "getStringLen font s = Inr a"
    and "getStringLen font t = Inr b"
  shows "getStringLen font (s @ t) = Inr (a + b)"
proof -
  have "getStringLen font (s @ t) =
      (case getStringLen font s of
         Inl p \<Rightarrow> Inl p
       | Inr a \<Rightarrow> sumWidths font (map (\<lambda>p. of_char (t ! fst p)) (rangeString 0 t)) a)"
    by (simp add: getStringLen_def startBytes_append [OF assms(1)] sumWidths_append)
  also have "\<dots> = sumWidths font (map (\<lambda>p. of_char (t ! fst p)) (rangeString 0 t)) a"
    by (simp add: assms(2))
  also have "\<dots> = Inr (a + b)"
    using assms(3) sumWidths_acc [of font "map (\<lambda>p. of_char (t ! fst p)) (rangeString 0 t)" a]
    by (simp add: getStringLen_def)
  finally show ?thesis .
qed

lemma ucast_byte_not_RuneError: "ucast (b :: byte) \<noteq> RuneError"
proof
  assume "ucast b = RuneError"
  then have "unat (ucast b :: rune) = unat RuneError"
    by simp
  moreover have lt: "unat b < 2 ^ 8"
    using unsigned_less [of b, where ?'a = nat] by simp
  then have "unat b < 2 ^ 32"
    by simp
  then have "unat (ucast b :: rune) = unat b"
    by (simp add: unsigned_ucast_eq take_bit_nat_eq_self)
  ultimately show False
    using lt by (simp add: RuneError_def)
qed

lemma validString_ascii: "\<forall>c \<in> set s. of_char c < (0x80 :: byte) \<Longrightarrow> validString s"
proof (induction s)
  case Nil
  then show ?case by (simp add: validString.simps)
next
  case (Cons c s)
  then show ?case
    by (subst validString.simps) (simp add: decodeRune_ascii ucast_byte_not_RuneError)
qed

theorem getStringLen_append_witness:
  "validString ''A'' \<and> getStringLen fontAB ''A'' = Inr 6 \<and> getStringLen fontAB ''B'' = Inr 6 \<and>
   getStringLen fontAB (''A'' @ ''B'') = Inr 12"
proof -
  have v: "validString ''A''"
    by (simp add: validString_ascii)
  have a: "getStringLen fontAB ''A'' = Inr 6" and b: "getStringLen fontAB ''B'' = Inr 6"
    by code_simp+
  from getStringLen_append [OF v a b] v a b show ?thesis
    by simp
qed

text \<open>Without that condition the claim fails: the bytes C3 and A9 are two invalid
  sequences when measured one by one, each looked up as the rune of its value, and one
  character when joined.\<close>

theorem getStringLen_append_counterexample:
  "getStringLen fontLatin [CHR 0xC3] = Inr 6 \<and>
   getStringLen fontLatin [CHR 0xA9] = Inr 4 \<and>
   getStringLen fontLatin ([CHR 0xC3] @ [CHR 0xA9]) = Inr 6 \<and>
   getStringLen fontLatin ([CHR 0xC3] @ [CHR 0xA9]) \<noteq> Inr (6 + 4)"
proof -
  have r: "rangeString 0 (CharSet fontLatin) = [(0, 0xC3), (2, 0xA9)]"
    by (simp add: fontLatin_def rangeString_Cons decodeRune_def seqLen_def acceptLo_def acceptHi_def
          bits_def Let_def)
  have 1: "getStringLen fontLatin [CHR 0xC3] = Inr 6"
    using r by (simp add: getStringLen_def rangeString_Cons decodeRune_def seqLen_def
          IndexRune_def charWidthAt_def fontLatin_def)
  have 2: "getStringLen fontLatin [CHR 0xA9] = Inr 4"
    using r by (simp add: getStringLen_def rangeString_Cons decodeRune_def seqLen_def
          IndexRune_def charWidthAt_def fontLatin_def)
  have 3: "getStringLen fontLatin ([CHR 0xC3] @ [CHR 0xA9]) = Inr 6"
    using r by (simp add: getStringLen_def rangeString_Cons decodeRune_def seqLen_def acceptLo_def
          acceptHi_def bits_def Let_def IndexRune_def charWidthAt_def fontLatin_def)
  from 1 2 3 show ?thesis by simp
qed

section \<open>The default fonts\<close>

lemma defaultCharSet_ascii: "\<forall>c \<in> set defaultCharSet. of_char c < (0x80 :: byte)"
  by (simp add: defaultCharSet_def)

lemma defaultCharSet_length: "length defaultCharSet = 95"
  by (simp add: defaultCharSet_def)

lemma defaultCharSet_f: "defaultCharSet ! 70 = CHR ''f''"
  by (simp add: defaultCharSet_def)

lemma default_index_f: "IndexRune defaultCharSet 0x66 = 70"
  by (simp add: IndexRune_def defaultCharSet_def rangeString_Cons decodeRune_ascii)

lemma default_offset_f:
  assumes "IndexRune defaultCharSet char = 70"
  shows "char = 0x66"
proof -
  from assms have "firstAt defaultCharSet char 70"
    using IndexRune_firstAt [of defaultCharSet char 70] by simp
  then have "(70, char) \<in> set (zip [0 ..< 0 + length defaultCharSet]
       (map (\<lambda>c. ucast (of_char c :: byte)) defaultCharSet))"
    using rangeString_ascii [OF defaultCharSet_ascii, of 0] by (simp add: firstAt_def)
  then obtain k where k: "[0 ..< 95] ! k = 70" "k < 95"
      "map (\<lambda>c. ucast (of_char c :: byte)) defaultCharSet ! k = char"
    by (auto simp: in_set_zip defaultCharSet_length)
  then have "k = 70"
    by (simp del: upt_Suc)
  with k(3) show ?thesis
    by (simp add: defaultCharSet_length defaultCharSet_f)
qed

lemma makeDefaultFont_Inr:
  "makeDefaultFont l = Inr f \<Longrightarrow> projr (makeDefaultFont False) = f"
  by (auto simp: makeDefaultFont_def newFont_def split: if_splits)

lemma MakeDefaultFont_Inr:
  "MakeDefaultFont l = Inr f \<Longrightarrow> projr (MakeDefaultFont False) = f"
  by (auto simp: MakeDefaultFont_def NewFont_def split: if_splits)

lemma default_fields:
  "CharSet (projr (makeDefaultFont False)) = defaultCharSet"
  "CharSet (projr (MakeDefaultFont False)) = defaultCharSet"
  "GridWidth (projr (makeDefaultFont False)) = 10"
  "GridWidth (projr (MakeDefaultFont False)) = 10"
  "CharSize (projr (makeDefaultFont False)) = (5, 11)"
  "CharSize (projr (MakeDefaultFont False)) = (5, 11)"
  "NewlinePad (projr (makeDefaultFont False)) = 5"
  "NewlinePad (projr (MakeDefaultFont False)) = 5"
  "LetterPad (projr (makeDefaultFont False)) = 1"
  "LetterPad (projr (MakeDefaultFont False)) = 1"
  by (simp_all add: makeDefaultFont_def newFont_def MakeDefaultFont_def NewFont_def)

lemma default_widths:
  "CharWidths (projr (MakeDefaultFont False)) = (CharWidths (projr (makeDefaultFont False)))[70 := 4]"
  "CharWidths (projr (makeDefaultFont False)) ! 70 = 5"
  "length (CharWidths (projr (makeDefaultFont False))) = 95"
  by (simp_all add: makeDefaultFont_def newFont_def MakeDefaultFont_def NewFont_def eval_nat_numeral)


lemma default_lookup_agree:
  assumes "char \<noteq> 0x66"
  shows "loadGlyph (projr (makeDefaultFont False)) char = loadGlyph (projr (MakeDefaultFont False)) char"
proof (cases "IndexRune defaultCharSet char < 0")
  case True
  then show ?thesis
    by (simp add: loadGlyph_def default_fields)
next
  case False
  then obtain i where i: "IndexRune defaultCharSet char = int i"
    using nonneg_int_cases [of "IndexRune defaultCharSet char"] by auto
  with assms default_offset_f [of char] have "i \<noteq> 70"
    by auto
  then have "CharWidths (projr (MakeDefaultFont False)) ! i = CharWidths (projr (makeDefaultFont False)) ! i"
    by (simp add: default_widths(1))
  moreover have "length (CharWidths (projr (MakeDefaultFont False))) =
      length (CharWidths (projr (makeDefaultFont False)))"
    by (simp add: default_widths(1))
  ultimately show ?thesis
    using i by (simp add: loadGlyph_index default_fields)
qed

text \<open>
  Claim C5, as amended. The default fonts of the two variants have the same character
  set, grid width, cell size and pads, and the same width table but for one entry: the
  width of \<^verbatim>\<open>'f'\<close> (offset 70) is 5 in immediate mode and 4 in surface mode. So
  \<^verbatim>\<open>loadGlyph\<close> gives the same result in both for every rune other than \<^verbatim>\<open>'f'\<close>.
\<close>

theorem default_fonts_agree:
  assumes "makeDefaultFont l1 = Inr f1" and "MakeDefaultFont l2 = Inr f2"
  shows "CharSet f1 = CharSet f2 \<and> GridWidth f1 = GridWidth f2 \<and> CharSize f1 = CharSize f2 \<and>
         NewlinePad f1 = NewlinePad f2 \<and> LetterPad f1 = LetterPad f2 \<and>
         CharWidths f2 = (CharWidths f1)[70 := 4] \<and> CharWidths f1 ! 70 = 5 \<and>
         IndexRune (CharSet f1) 0x66 = 70 \<and>
         (\<forall>char. char \<noteq> 0x66 \<longrightarrow> loadGlyph f1 char = loadGlyph f2 char)"
proof -
  from assms have f: "f1 = projr (makeDefaultFont False)" "f2 = projr (MakeDefaultFont False)"
    by (simp_all add: makeDefaultFont_Inr MakeDefaultFont_Inr)
  show ?thesis
    unfolding f using default_lookup_agree
    by (simp add: default_fields default_widths default_index_f)
qed

theorem default_fonts_agree_witness:
  "loadGlyph (projr (makeDefaultFont False)) 0x41 = loadGlyph (projr (MakeDefaultFont False)) 0x41 \<and>
   CharSet (projr (makeDefaultFont False)) = CharSet (projr (MakeDefaultFont False))"
proof -
  have 1: "makeDefaultFont False = Inr (projr (makeDefaultFont False))"
    by (simp add: makeDefaultFont_def newFont_def)
  have 2: "MakeDefaultFont False = Inr (projr (MakeDefaultFont False))"
    by (simp add: MakeDefaultFont_def NewFont_def)
  have 3: "(0x41 :: rune) \<noteq> 0x66"
    by simp
  from default_fonts_agree [OF 1 2] 3 show ?thesis
    by blast
qed

text \<open>The claim as stated has the tables equal and the lookups agree on every character;
  for \<^verbatim>\<open>'f'\<close> the rectangles differ in width.\<close>

theorem default_fonts_differ_counterexample:
  "loadGlyph (projr (makeDefaultFont False)) 0x66 = Inr (\<lparr>X = 0, Y = 84, W = 5, H = 11\<rparr>, []) \<and>
   loadGlyph (projr (MakeDefaultFont False)) 0x66 = Inr (\<lparr>X = 0, Y = 84, W = 4, H = 11\<rparr>, [])"
proof -
  have i: "IndexRune (CharSet (projr (makeDefaultFont False))) 0x66 = int 70"
    "IndexRune (CharSet (projr (MakeDefaultFont False))) 0x66 = int 70"
    by (simp_all add: default_fields default_index_f)
  have w: "CharWidths (projr (MakeDefaultFont False)) ! 70 = 4"
    by (simp add: default_widths)
  show ?thesis
    by (simp add: loadGlyph_index [OF i(1)] loadGlyph_index [OF i(2)] default_fields default_widths w
          int32_def signed_modulo_int_def signed_divide_int_def)
qed

section \<open>Unknown characters in surface mode\<close>

text \<open>A byte below \<open>0x80\<close> is never inside a longer sequence, so the range loop stops
  at every such byte of the text.\<close>

lemma acceptLo_ge: "(0x80 :: byte) \<le> acceptLo b"
  by (simp add: acceptLo_def)

lemma decodeRune_cont:
  assumes "0 < j" and "j < snd (decodeRune s)"
  shows "(0x80 :: byte) \<le> of_char (s ! j)"
proof -
  have w4: "snd (decodeRune s) \<le> 4"
    by (cases s) (auto simp: decodeRune_def Let_def)
  from assms obtain c0 s' where s: "s = c0 # s'"
    by (cases s) (auto simp: decodeRune_def)
  from assms w4 have j: "j = 1 \<or> j = 2 \<or> j = 3"
    by auto
  have lo: "\<And>x. \<not> x < acceptLo (of_char c0) \<Longrightarrow> (0x80 :: byte) \<le> x"
    using acceptLo_ge [of "of_char c0"] by (meson leI order_trans)
  show ?thesis
  proof (cases s')
    case Nil
    with s assms show ?thesis
      by (simp add: decodeRune_def Let_def split: if_splits)
  next
    case (Cons c1 s'')
    note c1 = this
    show ?thesis
    proof (cases s'')
      case Nil
      with c1 s assms j lo show ?thesis
        by (auto simp: decodeRune_def Let_def contByte_def split: if_splits)
    next
      case (Cons c2 s3)
      note c2 = this
      show ?thesis
      proof (cases s3)
        case Nil
        with c1 c2 s assms j lo show ?thesis
          by (auto simp: decodeRune_def Let_def contByte_def split: if_splits)
      next
        case (Cons c3 s4)
        with c1 c2 s assms j lo show ?thesis
          by (auto simp: decodeRune_def Let_def contByte_def split: if_splits)
      qed
    qed
  qed
qed


lemma ascii_byte_is_start:
  "j < length s \<Longrightarrow> of_char (s ! j) < (0x80 :: byte) \<Longrightarrow>
     (i + j, ucast (of_char (s ! j) :: byte)) \<in> set (rangeString i s)"
proof (induction i s arbitrary: j rule: rangeString.induct)
  case (1 i s)
  from "1.prems" have ne: "s \<noteq> []" by auto
  let ?w = "snd (decodeRune s)"
  from ne have w: "1 \<le> ?w" "?w \<le> length s"
    using decodeRune_width [of s] by auto
  have unfold: "rangeString i s = (i, fst (decodeRune s)) # rangeString (i + ?w) (drop ?w s)"
    using ne by (subst rangeString.simps) simp
  consider "j = 0" | "0 < j" "j < ?w" | "?w \<le> j"
    by linarith
  then show ?case
  proof cases
    case 1
    from ne obtain c cs where s: "s = c # cs" by (cases s) auto
    with 1 "1.prems" rangeString_Cons [of i c cs] show ?thesis
      by (simp add: decodeRune_ascii)
  next
    case 2
    from decodeRune_cont [OF 2] "1.prems"(2) show ?thesis
      by simp
  next
    case 3
    with "1.prems" w have "j - ?w < length (drop ?w s)" "of_char (drop ?w s ! (j - ?w)) < (0x80 :: byte)"
      by simp_all
    from "1.IH" [OF ne this] 3 w show ?thesis
      by (simp add: unfold)
  qed
qed

lemma sumWidths_panic: "sumWidths font bs ln = Inl p \<Longrightarrow> p = IndexOutOfRange"
  by (induction bs arbitrary: ln) (auto simp: charWidthAt_def split: sum.splits if_splits)

lemma sumWidths_unknown:
  assumes "b \<in> set bs" and "IndexRune (CharSet font) (ucast b) < 0"
  shows "sumWidths font bs ln = Inl IndexOutOfRange"
  using assms
proof (induction bs arbitrary: ln)
  case Nil
  then show ?case by simp
next
  case (Cons a bs)
  show ?case
  proof (cases "charWidthAt font (IndexRune (CharSet font) (ucast a))")
    case (Inl p)
    then show ?thesis
      by (auto simp: charWidthAt_def split: if_splits)
  next
    case (Inr w)
    with Cons.prems have "b \<in> set bs"
      by (auto simp: charWidthAt_def)
    with Cons.IH Cons.prems(2) Inr show ?thesis
      by simp
  qed
qed

text \<open>A single-byte character that is not in the character set, anywhere in the text,
  makes the measurement panic.\<close>

lemma getStringLen_unknown:
  assumes "c \<in> set s" and "of_char c < (0x80 :: byte)"
    and "ucast (of_char c :: byte) \<notin> snd ` set (rangeString 0 (CharSet font))"
  shows "getStringLen font s = Inl IndexOutOfRange"
proof -
  from assms(1) obtain j where j: "j < length s" "s ! j = c"
    by (auto simp: in_set_conv_nth)
  with assms(2) have "(0 + j, ucast (of_char (s ! j) :: byte) :: rune) \<in> set (rangeString 0 s)"
    by (intro ascii_byte_is_start) simp_all
  then have "(\<lambda>p. of_char (s ! fst p) :: byte) (0 + j, ucast (of_char (s ! j) :: byte) :: rune) \<in>
      (\<lambda>p. of_char (s ! fst p)) ` set (rangeString 0 s)"
    by (rule imageI)
  then have "(of_char c :: byte) \<in> set (map (\<lambda>p. of_char (s ! fst p) :: byte) (rangeString 0 s))"
    using j by simp
  moreover from assms(3) have "IndexRune (CharSet font) (ucast (of_char c :: byte)) < 0"
    by (simp add: IndexRune_absent)
  ultimately show ?thesis
    by (simp only: getStringLen_def sumWidths_unknown)
qed

lemma RenderString_unknown:
  assumes "c \<in> set s" and "of_char c < (0x80 :: byte)"
    and "ucast (of_char c :: byte) \<notin> snd ` set (rangeString 0 (CharSet font))"
  shows "RenderString font createErr s col = ([], Inl IndexOutOfRange)"
  by (simp add: RenderString_def getStringLen_unknown [OF assms])

lemma runes_set_ascii:
  assumes "\<forall>c \<in> set s. of_char c < (0x80 :: byte)"
  shows "snd ` set (rangeString 0 s) = (\<lambda>c. ucast (of_char c :: byte)) ` set s"
proof -
  have "snd ` set (rangeString 0 s) = set (map snd (rangeString 0 s))"
    by simp
  also have "\<dots> = set (map (\<lambda>c. ucast (of_char c :: byte)) s)"
    by (simp only: runes_ascii [OF assms])
  finally show ?thesis by simp
qed

lemma default_no_newline: "0x0A \<notin> snd ` set (rangeString 0 defaultCharSet)"
  unfolding runes_set_ascii [OF defaultCharSet_ascii]
  by (simp add: defaultCharSet_def)

text \<open>The default font of surface mode has no newline in its character set: no text of
  more than one line can be rendered with it.\<close>

lemma RenderString_default_newline:
  assumes "CHR 0x0A \<in> set s"
  shows "RenderString (projr (MakeDefaultFont False)) createErr s col = ([], Inl IndexOutOfRange)"
  using assms default_no_newline
  by (intro RenderString_unknown [where c = "CHR 0x0A"]) (simp_all add: default_fields)

text \<open>
  Claim C2 has every rendering call return, an unknown character being logged and
  skipped, in both modes. Immediate mode does: with a well-formed font it never panics
  (\<open>renderString_no_panic\<close>), and a string of unknown characters only gives their log
  lines and no draw call (\<open>renderString_unknown_only\<close>). Surface mode measures the string
  first, and \<^verbatim>\<open>getStringLen\<close> indexes the width table with the \<open>-1\<close> of an unknown
  character: for the string \<^verbatim>\<open>"C"\<close> and the font \<^verbatim>\<open>"AB"\<close> \<^verbatim>\<open>RenderString\<close> panics before
  any SDL call, where \<^verbatim>\<open>renderString\<close> logs the character and returns; so does the
  default font on a text of two lines.
\<close>

theorem RenderString_unknown_panics:
  "RenderString fontAB (\<lambda>w h. False) ''C'' (255, 255, 255) = ([], Inl IndexOutOfRange) \<and>
   renderString fontAB (\<lambda>tr. False) ''C'' 10 10 (255, 255, 255) =
     (\<lparr>cursorX = 10, cursorY = 10, trace = [LogNotFound 0x43]\<rparr>, None) \<and>
   RenderString (projr (MakeDefaultFont False)) (\<lambda>w h. False) (''A'' @ CHR 0x0A # ''B'')
     (255, 255, 255) = ([], Inl IndexOutOfRange)"
proof -
  have 1: "RenderString fontAB (\<lambda>w h. False) ''C'' (255, 255, 255) = ([], Inl IndexOutOfRange)"
    by code_simp
  have 2: "renderString fontAB (\<lambda>tr. False) ''C'' 10 10 (255, 255, 255) =
     (\<lparr>cursorX = 10, cursorY = 10, trace = [LogNotFound 0x43]\<rparr>, None)"
    by code_simp
  have 3: "RenderString (projr (MakeDefaultFont False)) (\<lambda>w h. False) (''A'' @ CHR 0x0A # ''B'')
     (255, 255, 255) = ([], Inl IndexOutOfRange)"
    by (rule RenderString_default_newline) simp
  from 1 2 3 show ?thesis by simp
qed

section \<open>Character positions and byte offsets\<close>

lemma unat_rune_of_char: "unat (ucast (of_char c :: byte) :: rune) = of_char c"
proof -
  have "(of_char c :: byte) = of_nat (of_char c)"
    by (simp add: of_nat_of_char)
  then have "unat (of_char c :: byte) = take_bit 8 (of_char c :: nat)"
    by (simp only: unsigned_of_nat) simp
  also have "\<dots> = of_char c"
    by (rule take_bit_nat_eq_self) simp
  finally have b: "unat (of_char c :: byte) = of_char c" .
  have "unat (of_char c :: byte) < 2 ^ 32"
    by (simp add: b order_less_trans [OF nat_of_char_less_256])
  then have "unat (ucast (of_char c :: byte) :: rune) = unat (of_char c :: byte)"
    by (simp add: unsigned_ucast_eq take_bit_nat_eq_self)
  with b show ?thesis by simp
qed

lemma rune_of_char_inj:
  "ucast (of_char c :: byte) = (ucast (of_char d :: byte) :: rune) \<Longrightarrow> c = d"
proof -
  assume "ucast (of_char c :: byte) = (ucast (of_char d :: byte) :: rune)"
  then have "unat (ucast (of_char c :: byte) :: rune) = unat (ucast (of_char d :: byte) :: rune)"
    by simp
  then have "(of_char c :: nat) = of_char d"
    by (simp only: unat_rune_of_char)
  then show ?thesis by simp
qed

lemma firstAt_position:
  assumes asc: "\<forall>c \<in> set s. of_char c < (0x80 :: byte)"
    and i: "i < length s" and first: "s ! i \<notin> set (take i s)"
  shows "firstAt s (ucast (of_char (s ! i) :: byte)) i"
proof -
  let ?f = "\<lambda>c. ucast (of_char c :: byte) :: rune"
  have r: "rangeString 0 s = zip [0 ..< length s] (map ?f s)"
    using rangeString_ascii [OF asc, of 0] by simp
  have 1: "(i, ?f (s ! i)) \<in> set (rangeString 0 s)"
    unfolding r using i by (auto simp: in_set_zip intro!: exI [where x = i])
  have 2: "i \<le> fst p" if "p \<in> set (rangeString 0 s)" "snd p = ?f (s ! i)" for p
  proof (rule ccontr)
    assume "\<not> i \<le> fst p"
    then have lt: "fst p < i" by simp
    from that(1) obtain k where k: "k < length s" "fst p = k" "snd p = ?f (s ! k)"
      unfolding r by (auto simp: in_set_zip)
    with that(2) have "s ! k = s ! i"
      by (auto dest: rune_of_char_inj)
    moreover from lt k i have "s ! k \<in> set (take i s)"
      by (auto simp: in_set_conv_nth intro!: exI [where x = k])
    ultimately show False using first by simp
  qed
  from 1 2 show ?thesis
    by (auto simp: firstAt_def)
qed


text \<open>In a character set of single-byte characters the position of a character is its
  byte offset, and the lookup is the one of the specification: cell \<open>i\<close> and width \<open>i\<close>
  for the character first found at position \<open>i\<close>.\<close>

lemma loadGlyph_position_ascii:
  assumes "\<forall>c \<in> set (CharSet font). of_char c < (0x80 :: byte)"
    and "0 <s GridWidth font"
    and "length (CharSet font) \<le> length (CharWidths font)"
    and "i < length (CharSet font)"
    and "CharSet font ! i \<notin> set (take i (CharSet font))"
  shows "loadGlyph font (ucast (of_char (CharSet font ! i) :: byte)) =
     Inr (\<lparr>X = int32 (word_of_int (int i mod sint (GridWidth font)) * (fst (CharSize font) + 1)),
           Y = int32 (word_of_int (int i div sint (GridWidth font)) * (snd (CharSize font) + 1)),
           W = int32 (CharWidths font ! i),
           H = int32 (snd (CharSize font))\<rparr>, [])"
proof -
  from assms(1,4,5) have idx: "IndexRune (CharSet font) (ucast (of_char (CharSet font ! i) :: byte)) = int i"
    by (simp add: IndexRune_firstAt firstAt_position)
  from assms(3,4) have "i < length (CharWidths font)"
    by simp
  moreover from assms(2) have "0 < sint (GridWidth font)" and "GridWidth font \<noteq> 0"
    by (auto simp: word_sless_alt)
  ultimately show ?thesis
    by (simp add: loadGlyph_index [OF idx] smod_nonneg_pos sdiv_nonneg_pos)
qed

text \<open>
  Claim C1 has \<^verbatim>\<open>loadGlyph\<close> return, for the character at index \<open>i\<close> of the character set
  and a width table with one width for each character, the cell \<open>i\<close> of the grid with the
  width \<open>CharWidths[i]\<close>. \<^verbatim>\<open>loadGlyph\<close> uses the byte offset that \<^verbatim>\<open>strings.IndexRune\<close>
  returns as that index. After a character of two bytes the two differ: in \<open>fontAccentB\<close>
  \<^verbatim>\<open>'B'\<close> is the second of two characters, with two widths in the table, and
  \<^verbatim>\<open>loadGlyph\<close> panics on \<open>CharWidths[2]\<close>; with a third width it returns cell 2 and that
  width, where the claim has \<open>(6, 0, 5, 11)\<close>, as for \<^verbatim>\<open>'B'\<close> in the font \<^verbatim>\<open>"AB"\<close>.
\<close>

theorem loadGlyph_byte_offset:
  "map snd (rangeString 0 (CharSet fontAccentB)) = [0xE9, 0x42] \<and>
   length (CharWidths fontAccentB) = 2 \<and>
   IndexRune (CharSet fontAccentB) 0x42 = 2 \<and>
   loadGlyph fontAccentB 0x42 = Inl IndexOutOfRange \<and>
   loadGlyph (fontAccentB\<lparr>CharWidths := [5, 5, 7]\<rparr>) 0x42 =
     Inr (\<lparr>X = 12, Y = 0, W = 7, H = 11\<rparr>, []) \<and>
   loadGlyph fontAB 0x42 = Inr (\<lparr>X = 6, Y = 0, W = 5, H = 11\<rparr>, [])"
proof -
  have r: "rangeString 0 (CharSet fontAccentB) = [(0, 0xE9), (2, 0x42)]"
    by (simp add: fontAccentB_def rangeString_Cons decodeRune_def seqLen_def acceptLo_def
          acceptHi_def bits_def Let_def)
  have i: "IndexRune (CharSet fontAccentB) 0x42 = int 2"
    "IndexRune (CharSet (fontAccentB\<lparr>CharWidths := [5, 5, 7]\<rparr>)) 0x42 = int 2"
    by (simp_all add: IndexRune_def r)
  have j: "IndexRune (CharSet fontAB) 0x42 = int 1"
    by (simp add: IndexRune_def fontAB_ranges [simplified])
  have 1: "loadGlyph fontAccentB 0x42 = Inl IndexOutOfRange"
    by (simp add: loadGlyph_index [OF i(1)]) (simp add: fontAccentB_def)
  have 2: "loadGlyph (fontAccentB\<lparr>CharWidths := [5, 5, 7]\<rparr>) 0x42 =
     Inr (\<lparr>X = 12, Y = 0, W = 7, H = 11\<rparr>, [])"
    by (simp add: loadGlyph_index [OF i(2)])
       (simp add: fontAccentB_def int32_def signed_modulo_int_def signed_divide_int_def)
  have 3: "loadGlyph fontAB 0x42 = Inr (\<lparr>X = 6, Y = 0, W = 5, H = 11\<rparr>, [])"
    by (simp add: loadGlyph_index [OF j])
       (simp add: fontAB_def int32_def signed_modulo_int_def signed_divide_int_def)
  from r i(1) 1 2 3 show ?thesis
    by (simp add: fontAccentB_def)
qed

section \<open>A table shorter than the character set\<close>

text \<open>The claim as stated has \<^verbatim>\<open>loadGlyph\<close> panic for the characters of the character
  set whenever the table is shorter than the character set. The table of \<open>fontAA\<close> is
  shorter and no rune makes \<^verbatim>\<open>loadGlyph\<close> panic: the one character of the set is found
  at offset 0. With the table \<open>[5]\<close> the font \<^verbatim>\<open>"AB"\<close> still returns for \<^verbatim>\<open>'A'\<close>. The
  precondition on the length is sufficient, not necessary.\<close>

lemma fontAA_ranges: "rangeString 0 (CharSet fontAA) = [(0, 0x41), (1, 0x41)]"
  by (simp add: fontAA_def rangeString_Cons decodeRune_def seqLen_def)

lemma fontAA_total: "\<exists>res. loadGlyph fontAA char = Inr res"
proof (cases "char = 0x41")
  case True
  then have "IndexRune (CharSet fontAA) char = int 0"
    by (simp add: IndexRune_def fontAA_ranges)
  from loadGlyph_index [OF this] show ?thesis
    by (simp add: fontAA_def)
next
  case False
  then have "IndexRune (CharSet fontAA) char = - 1"
    by (auto simp: IndexRune_def fontAA_ranges)
  then show ?thesis
    by (simp add: loadGlyph_def)
qed

theorem short_table_counterexample:
  "length (CharWidths fontAA) < length (CharSet fontAA) \<and>
   map snd (rangeString 0 (CharSet fontAA)) = [0x41, 0x41] \<and>
   loadGlyph fontAA 0x41 = Inr (\<lparr>X = 0, Y = 0, W = 5, H = 11\<rparr>, []) \<and>
   length (CharWidths (fontAB\<lparr>CharWidths := [5]\<rparr>)) < length (CharSet (fontAB\<lparr>CharWidths := [5]\<rparr>)) \<and>
   loadGlyph (fontAB\<lparr>CharWidths := [5]\<rparr>) 0x41 = Inr (\<lparr>X = 0, Y = 0, W = 5, H = 11\<rparr>, [])"
proof -
  have i: "IndexRune (CharSet fontAA) 0x41 = int 0"
    by (simp add: IndexRune_def fontAA_ranges)
  have j: "IndexRune (CharSet (fontAB\<lparr>CharWidths := [5]\<rparr>)) 0x41 = int 0"
    by (simp add: IndexRune_def fontAB_ranges [simplified])
  have 1: "loadGlyph fontAA 0x41 = Inr (\<lparr>X = 0, Y = 0, W = 5, H = 11\<rparr>, [])"
    by (simp add: loadGlyph_index [OF i])
       (simp add: fontAA_def int32_def signed_modulo_int_def signed_divide_int_def)
  have 2: "loadGlyph (fontAB\<lparr>CharWidths := [5]\<rparr>) 0x41 = Inr (\<lparr>X = 0, Y = 0, W = 5, H = 11\<rparr>, [])"
    by (simp add: loadGlyph_index [OF j])
       (simp add: fontAB_def int32_def signed_modulo_int_def signed_divide_int_def)
  from 1 2 fontAA_ranges show ?thesis
    by (simp add: fontAA_def)
qed

end
